theory Spec2Isabelle
  imports Main "HOL-Library.Word" "HOL-Library.Sublist" "HOL-Library.AList"
begin

section \<open>Texture channel separation: a model of \<open>script.py\<close>\<close>

text \<open>
  The script scans a folder, selects the files whose name contains \<open>_rmo\<close> and ends
  with an image extension, splits each into its R, G, B and A planes and saves every plane
  as a grayscale PNG. The model follows \<open>process_texture_channels\<close> statement by
  statement. What the script obtains from its libraries (\<open>os\<close>, \<open>os.path\<close>,
  \<open>PIL.Image\<close>, \<open>numpy\<close>) is modelled by small functions that carry the
  documented behaviour of the calls the script makes.
\<close>

subsection \<open>Strings: \<open>str.lower\<close>, \<open>in\<close>, \<open>str.endswith\<close>, \<open>os.path.splitext\<close>\<close>

text \<open>
  File names are byte strings. \<open>lower\<close> maps the letters A to Z to a to z and leaves
  every other character alone; the marker and all extensions are ASCII, so this is the part
  of \<open>str.lower\<close> the filter depends on. Python's \<open>x in s\<close> on strings is
  \<^const>\<open>sublist\<close> and \<open>s.endswith(e)\<close> is \<^const>\<open>suffix\<close>.
\<close>

definition lower_char :: "char \<Rightarrow> char" where
  "lower_char c =
     (case map_of (zip ''ABCDEFGHIJKLMNOPQRSTUVWXYZ'' ''abcdefghijklmnopqrstuvwxyz'') c of
        Some d \<Rightarrow> d
      | None \<Rightarrow> c)"

definition lower :: "string \<Rightarrow> string" where
  "lower s = map lower_char s"

text \<open>\<open>s.rfind(c)\<close>: the highest index of \<open>c\<close> in \<open>s\<close>, or \<open>-1\<close>.\<close>

fun rfind :: "char \<Rightarrow> string \<Rightarrow> int" where
  "rfind c [] = -1"
| "rfind c (x # xs) =
     (let r = rfind c xs in if 0 \<le> r then r + 1 else if x = c then 0 else -1)"

text \<open>
  \<open>os.path.splitext\<close> (the generic \<open>_splitext\<close> with separator \<open>/\<close>): the
  extension starts at the last dot, provided that dot comes after the last separator and
  some character between the separator and the dot is not a dot; otherwise the extension is
  empty.
\<close>

definition splitext :: "string \<Rightarrow> string \<times> string" where
  "splitext p =
     (let sepIndex = rfind (CHR ''/'') p;
          dotIndex = rfind (CHR ''.'') p
      in if sepIndex < dotIndex \<and>
            list_ex (\<lambda>c. c \<noteq> CHR ''.'')
              (take (nat (dotIndex - (sepIndex + 1))) (drop (nat (sepIndex + 1)) p))
         then (take (nat dotIndex) p, drop (nat dotIndex) p)
         else (p, []))"

subsection \<open>The constants of the script\<close>

text \<open>
  \<open>channel_info\<close> is a dictionary literal; iterating over \<open>items()\<close> follows the
  insertion order, so it is an association list in the order of the source.
\<close>

definition channel_info :: "(string \<times> nat) list" where
  "channel_info = [(''_r'', 0), (''_g'', 1), (''_b'', 2), (''_a'', 3)]"

definition supported_formats :: "string list" where
  "supported_formats =
     [''.png'', ''.jpg'', ''.jpeg'', ''.tga'', ''.tif'', ''.tiff'', ''.bmp'', ''.exr'']"

text \<open>
  Line 39: \<open>'_rmo' in filename.lower() and filename.lower().endswith(supported_formats)\<close>.
\<close>

definition eligible :: "string \<Rightarrow> bool" where
  "eligible filename \<longleftrightarrow>
     sublist ''_rmo'' (lower filename) \<and>
     list_ex (\<lambda>e. suffix e (lower filename)) supported_formats"

text \<open>
  The eligibility filter in the words of the specification: the lowercase form of the name
  contains the marker, and the tail of the name, compared without regard to case, is one of
  the supported extensions.
\<close>

definition spec_eligible :: "string \<Rightarrow> bool" where
  "spec_eligible filename \<longleftrightarrow>
     (\<exists>pre post. lower filename = pre @ ''_rmo'' @ post) \<and>
     (\<exists>e \<in> set supported_formats.
        length e \<le> length filename \<and>
        lower (drop (length filename - length e) filename) = lower e)"

text \<open>Line 53 and line 76: the base name and the name of the output file for a suffix.\<close>

definition base_name :: "string \<Rightarrow> string" where
  "base_name filename = fst (splitext filename)"

definition output_filename :: "string \<Rightarrow> string \<Rightarrow> string" where
  "output_filename filename sfx = base_name filename @ sfx @ ''.png''"

subsection \<open>Exceptions\<close>

text \<open>The exceptions that the calls of the script raise.\<close>

datatype exn =
    FileNotFoundError
  | FileExistsError
  | NotADirectoryError
  | IsADirectoryError
  | UnidentifiedImageError
  | ValueError
  | UnicodeEncodeError

subsection \<open>Images\<close>

text \<open>
  A decoded image has a mode, a size, and one plane of pixels per band, in row-major order.
  The modes \<open>L\<close>, \<open>LA\<close>, \<open>RGB\<close> and \<open>RGBA\<close> are given by their 8-bit
  planes. An \<open>L\<close> or \<open>RGB\<close> image may carry a transparency key, the entry
  \<open>transparency\<close> of its \<open>info\<close> dictionary (the \<open>tRNS\<close> chunk of a PNG file).
  An image of any other mode is given by its mode, its size and what the decoder's own
  conversion to \<open>RGBA\<close> makes of it: four planes, from its palette, its bits or its
  colour space, or nothing, when the decoder has no conversion from the mode. The script
  does nothing else with such an image.
\<close>

type_synonym plane = "8 word list"

datatype other_mode =
    Bilevel | Palette | PaletteAlpha | Cmyk | Ycbcr | Lab | Hsv | Int32 | Float32 | Int16 | Rgbx

fun mode_name :: "other_mode \<Rightarrow> string" where
  "mode_name Bilevel = ''1''"
| "mode_name Palette = ''P''"
| "mode_name PaletteAlpha = ''PA''"
| "mode_name Cmyk = ''CMYK''"
| "mode_name Ycbcr = ''YCbCr''"
| "mode_name Lab = ''LAB''"
| "mode_name Hsv = ''HSV''"
| "mode_name Int32 = ''I''"
| "mode_name Float32 = ''F''"
| "mode_name Int16 = ''I;16''"
| "mode_name Rgbx = ''RGBX''"

fun mode_bands :: "other_mode \<Rightarrow> nat" where
  "mode_bands PaletteAlpha = 2"
| "mode_bands Cmyk = 4"
| "mode_bands Rgbx = 4"
| "mode_bands Ycbcr = 3"
| "mode_bands Lab = 3"
| "mode_bands Hsv = 3"
| "mode_bands m = 1"

datatype image =
    Gray "nat \<times> nat" plane
  | GrayAlpha "nat \<times> nat" plane plane
  | Rgb "nat \<times> nat" plane plane plane
  | Rgba "nat \<times> nat" plane plane plane plane
  | GrayKeyed "nat \<times> nat" plane "8 word"
  | RgbKeyed "nat \<times> nat" plane plane plane "8 word \<times> 8 word \<times> 8 word"
  | Other other_mode "nat \<times> nat" plane plane plane plane
  | Unconvertible other_mode "nat \<times> nat"

fun mode :: "image \<Rightarrow> string" where
  "mode (Gray _ _) = ''L''"
| "mode (GrayAlpha _ _ _) = ''LA''"
| "mode (Rgb _ _ _ _) = ''RGB''"
| "mode (Rgba _ _ _ _ _) = ''RGBA''"
| "mode (GrayKeyed _ _ _) = ''L''"
| "mode (RgbKeyed _ _ _ _ _) = ''RGB''"
| "mode (Other m _ _ _ _ _) = mode_name m"
| "mode (Unconvertible m _) = mode_name m"

text \<open>The number of bands of an image: \<open>len(img.getbands())\<close>.\<close>

fun band_count :: "image \<Rightarrow> nat" where
  "band_count (Gray _ _) = 1"
| "band_count (GrayAlpha _ _ _) = 2"
| "band_count (Rgb _ _ _ _) = 3"
| "band_count (Rgba _ _ _ _ _) = 4"
| "band_count (GrayKeyed _ _ _) = 1"
| "band_count (RgbKeyed _ _ _ _ _) = 3"
| "band_count (Other m _ _ _ _ _) = mode_bands m"
| "band_count (Unconvertible m _) = mode_bands m"

text \<open>
  \<open>img.convert('RGBA')\<close>: gray is copied into R, G and B, and a missing alpha band
  is filled with 255, except that with a transparency key the alpha of a pixel that equals
  the key is 0. Without a conversion from the mode the call raises \<open>ValueError\<close>.
\<close>

definition opaque :: "plane \<Rightarrow> plane" where
  "opaque p = map (\<lambda>_. 255) p"

definition keyed_alpha :: "'a \<Rightarrow> 'a list \<Rightarrow> plane" where
  "keyed_alpha k p = map (\<lambda>v. if v = k then 0 else 255) p"

fun convert_RGBA :: "image \<Rightarrow> exn + image" where
  "convert_RGBA (Gray sz l) = Inr (Rgba sz l l l (opaque l))"
| "convert_RGBA (GrayAlpha sz l a) = Inr (Rgba sz l l l a)"
| "convert_RGBA (Rgb sz r g b) = Inr (Rgba sz r g b (opaque r))"
| "convert_RGBA (Rgba sz r g b a) = Inr (Rgba sz r g b a)"
| "convert_RGBA (GrayKeyed sz l k) = Inr (Rgba sz l l l (keyed_alpha k l))"
| "convert_RGBA (RgbKeyed sz r g b k) = Inr (Rgba sz r g b (keyed_alpha k (zip r (zip g b))))"
| "convert_RGBA (Other m sz r g b a) = Inr (Rgba sz r g b a)"
| "convert_RGBA (Unconvertible m sz) = Inl ValueError"

text \<open>
  \<open>img.split()\<close>: one \<open>L\<close> image per band. The script splits an image after its
  conversion, so the bands of an image with a transparency key or of another mode are not
  needed and not defined.
\<close>

fun split_bands :: "image \<Rightarrow> image list" where
  "split_bands (Gray sz l) = [Gray sz l]"
| "split_bands (GrayAlpha sz l a) = [Gray sz l, Gray sz a]"
| "split_bands (Rgb sz r g b) = [Gray sz r, Gray sz g, Gray sz b]"
| "split_bands (Rgba sz r g b a) = [Gray sz r, Gray sz g, Gray sz b, Gray sz a]"

text \<open>
  Line 73, \<open>Image.fromarray(255 - np.array(channel))\<close>: the array of an 8-bit image
  has type \<open>uint8\<close>, and so has the difference. The script inverts single bands only.
\<close>

definition invert_plane :: "plane \<Rightarrow> plane" where
  "invert_plane p = map (\<lambda>v. 255 - v) p"

fun invert :: "image \<Rightarrow> image" where
  "invert (Gray sz l) = Gray sz (invert_plane l)"
| "invert (GrayAlpha sz l a) = GrayAlpha sz (invert_plane l) (invert_plane a)"
| "invert (Rgb sz r g b) = Rgb sz (invert_plane r) (invert_plane g) (invert_plane b)"
| "invert (Rgba sz r g b a) =
     Rgba sz (invert_plane r) (invert_plane g) (invert_plane b) (invert_plane a)"

subsection \<open>The file system\<close>

text \<open>
  A path is the list of its components below the root, so \<open>os.path.join(d, name)\<close> is
  \<open>d @ [name]\<close>. A file holds either an image encoded in some format or bytes that the
  decoder does not accept. The file system is an association list from paths to nodes; its
  order is the order in which a directory is enumerated. The root always exists.
\<close>

type_synonym path = "string list"

datatype format = PNG | JPEG | TGA | TIFF | BMP

datatype content = Encoded format image | Junk

datatype node = Dir | File content

type_synonym fsys = "(path \<times> node) list"

definition lookup :: "fsys \<Rightarrow> path \<Rightarrow> node option" where
  "lookup fs p = (if p = [] then Some Dir else map_of fs p)"

text \<open>\<open>os.path.exists\<close>.\<close>

definition path_exists :: "fsys \<Rightarrow> path \<Rightarrow> bool" where
  "path_exists fs p \<longleftrightarrow> lookup fs p \<noteq> None"

text \<open>\<open>os.mkdir\<close>: the directory must not exist, and its parent must be a directory.\<close>

definition mkdir :: "path \<Rightarrow> fsys \<Rightarrow> exn + fsys" where
  "mkdir p fs =
     (if path_exists fs p then Inl FileExistsError
      else case lookup fs (butlast p) of
             None \<Rightarrow> Inl FileNotFoundError
           | Some (File _) \<Rightarrow> Inl NotADirectoryError
           | Some Dir \<Rightarrow> Inr (AList.update p Dir fs))"

text \<open>
  \<open>os.makedirs\<close> without \<open>exist_ok\<close>: the missing ancestors are made first,
  then the directory itself.
\<close>

function makedirs :: "path \<Rightarrow> fsys \<Rightarrow> exn + fsys" where
  "makedirs p fs =
     (if p \<noteq> [] \<and> \<not> path_exists fs (butlast p)
      then (case makedirs (butlast p) fs of
              Inl e \<Rightarrow> Inl e
            | Inr fs' \<Rightarrow> mkdir p fs')
      else mkdir p fs)"
  by pat_completeness auto
termination
  by (relation "measure (\<lambda>(p, fs). length p)") auto

declare makedirs.simps [simp del]

text \<open>\<open>os.listdir\<close>: the names of the entries of a directory, in enumeration order.\<close>

definition listdir :: "fsys \<Rightarrow> path \<Rightarrow> exn + string list" where
  "listdir fs d =
     (case lookup fs d of
        None \<Rightarrow> Inl FileNotFoundError
      | Some (File _) \<Rightarrow> Inl NotADirectoryError
      | Some Dir \<Rightarrow> Inr (map (last \<circ> fst) (filter (\<lambda>(q, n). q \<noteq> [] \<and> butlast q = d) fs)))"

text \<open>
  \<open>Image.open\<close> followed by the loading of the pixel data: a failure to read the
  file comes before any effect of the script on the file system, whether it is raised by
  \<open>open\<close> or when \<open>convert\<close> or \<open>split\<close> load the pixels.
\<close>

definition Image_open :: "fsys \<Rightarrow> path \<Rightarrow> exn + image" where
  "Image_open fs p =
     (case lookup fs p of
        None \<Rightarrow> Inl FileNotFoundError
      | Some Dir \<Rightarrow> Inl IsADirectoryError
      | Some (File Junk) \<Rightarrow> Inl UnidentifiedImageError
      | Some (File (Encoded _ img)) \<Rightarrow> Inr img)"

text \<open>
  \<open>Image.save\<close>: the format is chosen by the lowercase extension of the file name
  (\<open>ValueError\<close> when it is unknown), then the file is created or truncated and written.
\<close>

definition EXTENSION :: "(string \<times> format) list" where
  "EXTENSION =
     [(''.png'', PNG), (''.jpg'', JPEG), (''.jpeg'', JPEG), (''.tga'', TGA),
      (''.tif'', TIFF), (''.tiff'', TIFF), (''.bmp'', BMP)]"

definition save :: "image \<Rightarrow> path \<Rightarrow> fsys \<Rightarrow> exn + fsys" where
  "save img p fs =
     (if p = [] then Inl IsADirectoryError
      else case map_of EXTENSION (lower (snd (splitext (last p)))) of
             None \<Rightarrow> Inl ValueError
           | Some fmt \<Rightarrow>
               (case lookup fs (butlast p) of
                  None \<Rightarrow> Inl FileNotFoundError
                | Some (File _) \<Rightarrow> Inl NotADirectoryError
                | Some Dir \<Rightarrow>
                    (case lookup fs p of
                       Some Dir \<Rightarrow> Inl IsADirectoryError
                     | _ \<Rightarrow> Inr (AList.update p (File (Encoded fmt img)) fs))))"

subsection \<open>The run\<close>

text \<open>
  The world is the file system and the lines printed so far. The three \<open>print\<close> calls
  of the script give the three kinds of line. The exception of an \<open>Error\<close> line stands
  for its message \<open>str(e)\<close>.
\<close>

datatype log_line =
    Saved path
  | Processed string
  | Error string exn

record world =
  disk :: fsys
  console :: "log_line list"

record config =
  input_folder :: path
  output_folder :: path
  invert_channels :: "string list option"
  create_subfolders :: bool

text \<open>
  \<open>print\<close> writes to the standard output, which may refuse a line: the text cannot
  be encoded, or the stream is broken. The standard output is given by the exception it
  raises for a line, if any. A line that is accepted is appended to the console.
\<close>

type_synonym stdout = "log_line \<Rightarrow> exn option"

definition print :: "stdout \<Rightarrow> log_line \<Rightarrow> world \<Rightarrow> exn + world" where
  "print out l w =
     (case out l of
        Some e \<Rightarrow> Inl e
      | None \<Rightarrow> Inr (w\<lparr>console := console w @ [l]\<rparr>))"

text \<open>A standard output that accepts every line.\<close>

definition lenient :: stdout where
  "lenient l = None"

text \<open>
  A standard output with the encoding UTF-8 and the error handler \<open>strict\<close>. The
  names in a line are byte strings; a name that is not well-formed UTF-8 reaches the script
  with its offending bytes as lone surrogates, which this output cannot encode. The rest of
  a line is ASCII. Well-formed UTF-8 is recognised byte by byte: the state is the number of
  continuation bytes still due and the range allowed for the next one.
\<close>

fun utf8_step :: "nat \<times> nat \<times> nat \<Rightarrow> nat \<Rightarrow> (nat \<times> nat \<times> nat) option" where
  "utf8_step (0, lo, hi) b =
     (if b < 128 then Some (0, 128, 191)
      else if 194 \<le> b \<and> b \<le> 223 then Some (1, 128, 191)
      else if b = 224 then Some (2, 160, 191)
      else if b = 237 then Some (2, 128, 159)
      else if 225 \<le> b \<and> b \<le> 239 then Some (2, 128, 191)
      else if b = 240 then Some (3, 144, 191)
      else if 241 \<le> b \<and> b \<le> 243 then Some (3, 128, 191)
      else if b = 244 then Some (3, 128, 143)
      else None)"
| "utf8_step (Suc n, lo, hi) b =
     (if lo \<le> b \<and> b \<le> hi then Some (n, 128, 191) else None)"

fun utf8_run :: "nat \<times> nat \<times> nat \<Rightarrow> nat list \<Rightarrow> bool" where
  "utf8_run st [] \<longleftrightarrow> fst st = 0"
| "utf8_run st (b # bs) \<longleftrightarrow>
     (case utf8_step st b of None \<Rightarrow> False | Some st' \<Rightarrow> utf8_run st' bs)"

definition utf8_ok :: "string \<Rightarrow> bool" where
  "utf8_ok s \<longleftrightarrow> utf8_run (0, 128, 191) (map of_char s)"

fun line_names :: "log_line \<Rightarrow> string list" where
  "line_names (Saved p) = p"
| "line_names (Processed n) = [n]"
| "line_names (Error n e) = [n]"

definition utf8_console :: stdout where
  "utf8_console l =
     (if list_all utf8_ok (line_names l) then None else Some UnicodeEncodeError)"

text \<open>What a Python function returns.\<close>

datatype pyval = PNone | PInt int | PTuple "pyval list"

text \<open>
  Line 72: \<open>invert_channels and suffix[1] in invert_channels\<close>. \<open>None\<close> and the
  empty list are false; \<open>suffix[1]\<close> is the second character of the suffix, as a string.
\<close>

definition wants_invert :: "string list option \<Rightarrow> string \<Rightarrow> bool" where
  "wants_invert ivs sfx \<longleftrightarrow>
     (case ivs of None \<Rightarrow> False | Some l \<Rightarrow> l \<noteq> [] \<and> [sfx ! 1] \<in> set l)"

text \<open>Lines 69 to 73: the channel that is saved for a suffix.\<close>

definition emitted :: "string list option \<Rightarrow> string \<Rightarrow> image \<Rightarrow> image" where
  "emitted ivs sfx channel = (if wants_invert ivs sfx then invert channel else channel)"

text \<open>
  Lines 66 to 81, the loop over \<open>channel_info.items()\<close>, on a given standard output.
  The result is the exception that left the loop, if any, together with the world as it is
  at that moment: a file that was saved stays saved when the \<open>print\<close> after it raises.
\<close>

fun save_channels_on ::
  "stdout \<Rightarrow> string list option \<Rightarrow> string \<Rightarrow> path \<Rightarrow> image list \<Rightarrow> (string \<times> nat) list \<Rightarrow>
   world \<Rightarrow> (exn + unit) \<times> world" where
  "save_channels_on out ivs filename output_dir channels [] w = (Inr (), w)"
| "save_channels_on out ivs filename output_dir channels ((sfx, channel_index) # rest) w =
     (if channel_index < length channels then
        (let channel = emitted ivs sfx (channels ! channel_index);
             out_path = output_dir @ [output_filename filename sfx]
         in case save channel out_path (disk w) of
              Inl e \<Rightarrow> (Inl e, w)
            | Inr fs' \<Rightarrow>
                (case print out (Saved out_path) (w\<lparr>disk := fs'\<rparr>) of
                   Inl e \<Rightarrow> (Inl e, w\<lparr>disk := fs'\<rparr>)
                 | Inr w' \<Rightarrow>
                     save_channels_on out ivs filename output_dir channels rest w'))
      else save_channels_on out ivs filename output_dir channels rest w)"

text \<open>Lines 56 to 63: the output directory of a file.\<close>

definition output_dir_of :: "config \<Rightarrow> string \<Rightarrow> path" where
  "output_dir_of cfg filename =
     (if create_subfolders cfg then output_folder cfg @ [base_name filename]
      else output_folder cfg)"

definition ensure_output_dir :: "config \<Rightarrow> string \<Rightarrow> fsys \<Rightarrow> exn + fsys" where
  "ensure_output_dir cfg filename fs =
     (if create_subfolders cfg then
        (let subfolder_path = output_folder cfg @ [base_name filename]
         in if \<not> path_exists fs subfolder_path then makedirs subfolder_path fs else Inr fs)
      else Inr fs)"

text \<open>Lines 46 and 47: the image that is split.\<close>

definition normalised :: "image \<Rightarrow> exn + image" where
  "normalised img = (if mode img \<noteq> ''RGBA'' then convert_RGBA img else Inr img)"

text \<open>Lines 41 to 83: the body of the \<open>try\<close> statement.\<close>

definition try_body_on ::
  "stdout \<Rightarrow> config \<Rightarrow> string \<Rightarrow> world \<Rightarrow> (exn + unit) \<times> world" where
  "try_body_on out cfg filename w =
     (case Image_open (disk w) (input_folder cfg @ [filename]) of
        Inl e \<Rightarrow> (Inl e, w)
      | Inr img \<Rightarrow>
          (case normalised img of
             Inl e \<Rightarrow> (Inl e, w)
           | Inr rgba \<Rightarrow>
               (let channels = split_bands rgba
                in case ensure_output_dir cfg filename (disk w) of
                     Inl e \<Rightarrow> (Inl e, w)
                   | Inr fs' \<Rightarrow>
                       (case save_channels_on out (invert_channels cfg) filename
                               (output_dir_of cfg filename) channels channel_info
                               (w\<lparr>disk := fs'\<rparr>) of
                          (Inl e, w') \<Rightarrow> (Inl e, w')
                        | (Inr u, w') \<Rightarrow>
                            (case print out (Processed filename) w' of
                               Inl e \<Rightarrow> (Inl e, w')
                             | Inr w'' \<Rightarrow> (Inr (), w''))))))"

text \<open>
  Lines 38 to 86: one iteration of the loop over the directory entries. The \<open>print\<close>
  of the \<open>except\<close> clause is not inside a \<open>try\<close> statement: an exception that it
  raises leaves the iteration.
\<close>

definition process_entry_on ::
  "stdout \<Rightarrow> config \<Rightarrow> string \<Rightarrow> world \<Rightarrow> (exn + unit) \<times> world" where
  "process_entry_on out cfg filename w =
     (if eligible filename then
        (case try_body_on out cfg filename w of
           (Inl e, w') \<Rightarrow>
             (case print out (Error filename e) w' of
                Inl e' \<Rightarrow> (Inl e', w')
              | Inr w'' \<Rightarrow> (Inr (), w''))
         | (Inr u, w') \<Rightarrow> (Inr (), w'))
      else (Inr (), w))"

text \<open>Line 37: the loop. An exception that leaves an iteration ends it.\<close>

fun process_entries_on ::
  "stdout \<Rightarrow> config \<Rightarrow> string list \<Rightarrow> world \<Rightarrow> (exn + unit) \<times> world" where
  "process_entries_on out cfg [] w = (Inr (), w)"
| "process_entries_on out cfg (filename # rest) w =
     (case process_entry_on out cfg filename w of
        (Inl e, w') \<Rightarrow> (Inl e, w')
      | (Inr u, w') \<Rightarrow> process_entries_on out cfg rest w')"

text \<open>Lines 22 and 23: the destination folder is made when it does not exist.\<close>

definition ensure_output_folder :: "config \<Rightarrow> fsys \<Rightarrow> exn + fsys" where
  "ensure_output_folder cfg fs =
     (if \<not> path_exists fs (output_folder cfg) then makedirs (output_folder cfg) fs
      else Inr fs)"

text \<open>
  The whole function: the destination is ensured, the source folder is enumerated once
  (line 37), and the entries are processed in turn. Neither of the first two steps is inside
  the \<open>try\<close> statement. The function has no \<open>return\<close> statement, so a run that
  ends normally returns \<open>None\<close>.
\<close>

definition process_texture_channels_on ::
  "stdout \<Rightarrow> config \<Rightarrow> world \<Rightarrow> (exn + pyval) \<times> world" where
  "process_texture_channels_on out cfg w =
     (case ensure_output_folder cfg (disk w) of
        Inl e \<Rightarrow> (Inl e, w)
      | Inr fs1 \<Rightarrow>
          (case listdir fs1 (input_folder cfg) of
             Inl e \<Rightarrow> (Inl e, w\<lparr>disk := fs1\<rparr>)
           | Inr names \<Rightarrow>
               (case process_entries_on out cfg names (w\<lparr>disk := fs1\<rparr>) of
                  (Inl e, w') \<Rightarrow> (Inl e, w')
                | (Inr u, w') \<Rightarrow> (Inr PNone, w'))))"

subsection \<open>The run on a standard output that accepts every line\<close>

text \<open>
  On such an output no \<open>print\<close> raises. The functions below are the run on it; what is
  proved of them holds of a run whose lines are all accepted.
\<close>

definition save_channels ::
  "string list option \<Rightarrow> string \<Rightarrow> path \<Rightarrow> image list \<Rightarrow> (string \<times> nat) list \<Rightarrow>
   world \<Rightarrow> (exn + unit) \<times> world" where
  "save_channels = save_channels_on lenient"

definition try_body :: "config \<Rightarrow> string \<Rightarrow> world \<Rightarrow> (exn + unit) \<times> world" where
  "try_body = try_body_on lenient"

definition process_entry :: "config \<Rightarrow> string \<Rightarrow> world \<Rightarrow> (exn + unit) \<times> world" where
  "process_entry = process_entry_on lenient"

definition process_entries :: "config \<Rightarrow> string list \<Rightarrow> world \<Rightarrow> (exn + unit) \<times> world" where
  "process_entries = process_entries_on lenient"

definition process_texture_channels :: "config \<Rightarrow> world \<Rightarrow> (exn + pyval) \<times> world" where
  "process_texture_channels = process_texture_channels_on lenient"

subsection \<open>Reading the console\<close>

text \<open>
  The file a line reports on: the lines \<open>Processed\<close> and \<open>Error processing\<close>
  name a source file, one line for each file that went through the \<open>try\<close> statement;
  a \<open>Saved\<close> line names an output path.
\<close>

fun reported :: "log_line list \<Rightarrow> string list" where
  "reported [] = []"
| "reported (Saved p # ls) = reported ls"
| "reported (Processed n # ls) = n # reported ls"
| "reported (Error n e # ls) = n # reported ls"

fun saved_paths :: "log_line list \<Rightarrow> path list" where
  "saved_paths [] = []"
| "saved_paths (Saved p # ls) = p # saved_paths ls"
| "saved_paths (Processed n # ls) = saved_paths ls"
| "saved_paths (Error n e # ls) = saved_paths ls"

fun count_processed :: "log_line list \<Rightarrow> nat" where
  "count_processed [] = 0"
| "count_processed (Processed n # ls) = Suc (count_processed ls)"
| "count_processed (l # ls) = count_processed ls"

fun count_failed :: "log_line list \<Rightarrow> nat" where
  "count_failed [] = 0"
| "count_failed (Error n e # ls) = Suc (count_failed ls)"
| "count_failed (l # ls) = count_failed ls"

text \<open>The path of the output file of a source file for a suffix (line 77).\<close>

definition output_path :: "config \<Rightarrow> string \<Rightarrow> string \<Rightarrow> path" where
  "output_path cfg filename sfx = output_dir_of cfg filename @ [output_filename filename sfx]"

text \<open>An invert set restricted to the four channel letters.\<close>

definition restrict_invert :: "string list option \<Rightarrow> string list option" where
  "restrict_invert ivs =
     map_option (filter (\<lambda>x. x \<in> set [''r'', ''g'', ''b'', ''a''])) ivs"

subsection \<open>When a file can be written\<close>

text \<open>
  The disk lets the script write the four files of a source file when the output directory
  of the file is a directory, or, for a run with subfolders, is missing from a destination
  that is a directory, and when none of the four output paths is a directory.
\<close>

definition can_write :: "config \<Rightarrow> string \<Rightarrow> fsys \<Rightarrow> bool" where
  "can_write cfg filename fs \<longleftrightarrow>
     (lookup fs (output_dir_of cfg filename) = Some Dir \<or>
      create_subfolders cfg \<and> lookup fs (output_dir_of cfg filename) = None \<and>
      lookup fs (output_folder cfg) = Some Dir) \<and>
     list_all (\<lambda>(s, i). lookup fs (output_path cfg filename s) \<noteq> Some Dir) channel_info"

text \<open>The standard output accepts the five lines that the script prints for a file.\<close>

definition accepts_file :: "stdout \<Rightarrow> config \<Rightarrow> string \<Rightarrow> bool" where
  "accepts_file out cfg filename \<longleftrightarrow>
     list_all (\<lambda>(s, i). out (Saved (output_path cfg filename s)) = None) channel_info \<and>
     out (Processed filename) = None"

subsection \<open>The effect of an entry on the contents of the disk\<close>

text \<open>
  For a run that writes into subfolders, what an entry does to the disk is a function of what
  the disk holds at each path. The functions below compute it on the map from paths to
  nodes; they are shown further down to agree with \<open>process_entry\<close>, and serve to
  compare two runs.
\<close>

type_synonym tree = "path \<Rightarrow> node option"

text \<open>The image that is split for the file at a path, when there is one.\<close>

definition decode :: "tree \<Rightarrow> path \<Rightarrow> image option" where
  "decode m p =
     (case m p of
        Some (File (Encoded f img)) \<Rightarrow>
          (case normalised img of Inl e \<Rightarrow> None | Inr rgba \<Rightarrow> Some rgba)
      | _ \<Rightarrow> None)"

text \<open>The writes of one file, in order, up to the first target that is a directory.\<close>

fun write_all :: "tree \<Rightarrow> (path \<times> content) list \<Rightarrow> tree" where
  "write_all m [] = m"
| "write_all m ((t, c) # r) =
     (if m t = Some Dir then m else write_all (m(t \<mapsto> File c)) r)"

definition targets ::
  "string list option \<Rightarrow> string \<Rightarrow> path \<Rightarrow> image list \<Rightarrow> (string \<times> nat) list \<Rightarrow>
   (path \<times> content) list" where
  "targets ivs filename od channels ci =
     map (\<lambda>(s, i). (od @ [output_filename filename s],
                     Encoded PNG (emitted ivs s (channels ! i)))) ci"

definition outputs :: "config \<Rightarrow> string \<Rightarrow> image \<Rightarrow> (path \<times> content) list" where
  "outputs cfg filename rgba =
     targets (invert_channels cfg) filename (output_folder cfg @ [base_name filename])
       (split_bands rgba) channel_info"

definition entry_map :: "config \<Rightarrow> string \<Rightarrow> tree \<Rightarrow> tree" where
  "entry_map cfg filename m =
     (if \<not> eligible filename then m
      else case decode m (input_folder cfg @ [filename]) of
             None \<Rightarrow> m
           | Some img \<Rightarrow>
               (let od = output_folder cfg @ [base_name filename]
                in if m od = None then
                     (if m (output_folder cfg) = Some Dir
                      then write_all (m(od \<mapsto> Dir)) (outputs cfg filename img)
                      else m)
                   else if m od = Some Dir then write_all m (outputs cfg filename img)
                   else m))"

text \<open>
  One tree is ahead of another when it differs only by subfolders of the destination that
  it has and the other lacks, and by files two levels below the destination.
\<close>

definition ahead :: "config \<Rightarrow> tree \<Rightarrow> tree \<Rightarrow> bool" where
  "ahead cfg a b \<longleftrightarrow>
     (\<forall>q. b q = a q \<or>
          (a q = None \<and> b q = Some Dir \<and> (\<exists>x. q = output_folder cfg @ [x]) \<and>
           a (output_folder cfg) = Some Dir) \<or>
          (a q \<noteq> Some Dir \<and> (\<exists>c. b q = Some (File c)) \<and>
           (\<exists>x y. q = output_folder cfg @ [x, y])))"

text \<open>
  A disk has grown into another when the other lists the same paths in the same order,
  followed by paths that the first does not have.
\<close>

definition grows :: "fsys \<Rightarrow> fsys \<Rightarrow> bool" where
  "grows fs fs' \<longleftrightarrow>
     (\<exists>new. map fst fs' = map fst fs @ new \<and> set new \<inter> set (map fst fs) = {})"

subsection \<open>Example worlds\<close>

text \<open>
  A source folder with an undecodable file, a file without the marker and an RGB texture,
  and a run that inverts the red channel and writes into subfolders of another folder.
\<close>

definition example_world :: world where
  "example_world =
     \<lparr>disk =
        [([''tex''], Dir),
         ([''tex'', ''bad_rmo.png''], File Junk),
         ([''tex'', ''floor_diffuse.png''], File (Encoded PNG (Gray (1, 1) [7]))),
         ([''tex'', ''wall_rmo.png''], File (Encoded PNG (Rgb (1, 1) [200] [100] [50])))],
      console = []\<rparr>"

definition example_config :: config where
  "example_config =
     \<lparr>input_folder = [''tex''], output_folder = [''out''],
      invert_channels = Some [''r''], create_subfolders = True\<rparr>"


definition same_folder_config :: config where
  "same_folder_config =
     \<lparr>input_folder = [''tex''], output_folder = [''tex''],
      invert_channels = Some [''r''], create_subfolders = True\<rparr>"

text \<open>
  A run without subfolders and without an invert set, which writes into the source folder.
\<close>

definition flat_config :: config where
  "flat_config =
     \<lparr>input_folder = [''tex''], output_folder = [''tex''],
      invert_channels = None, create_subfolders = False\<rparr>"

text \<open>A source folder with a gray texture with alpha, in another format.\<close>

definition metal_world :: world where
  "metal_world =
     \<lparr>disk =
        [([''tex''], Dir),
         ([''tex'', ''Metal_RMO.TGA''], File (Encoded TGA (GrayAlpha (2, 1) [9, 4] [0, 128])))],
      console = []\<rparr>"

text \<open>
  A source folder whose first entry has a name that is not UTF-8: the byte FF, then
  \<open>_rmo.png\<close>. \<open>os.listdir\<close> returns it with a lone surrogate in the place of
  the byte.
\<close>

definition unprintable_world :: world where
  "unprintable_world =
     \<lparr>disk =
        [([''tex''], Dir),
         ([''tex'', CHR 0xFF # ''_rmo.png''], File Junk),
         ([''tex'', ''wall_rmo.png''], File (Encoded PNG (Rgb (1, 1) [200] [100] [50])))],
      console = []\<rparr>"

section \<open>Properties\<close>

subsection \<open>The run when every line is accepted\<close>

lemma mode_name_not_RGBA [simp]: "mode_name m \<noteq> ''RGBA''"
  by (cases m) simp_all

lemma print_lenient: "print lenient l w = Inr (w\<lparr>console := console w @ [l]\<rparr>)"
  by (simp add: print_def lenient_def)

lemma save_channels_Nil [simp]: "save_channels ivs fn od chans [] w = (Inr (), w)"
  by (simp add: save_channels_def)

lemma save_channels_Cons [simp]:
  "save_channels ivs fn od chans ((sfx, i) # rest) w =
     (if i < length chans then
        (case save (emitted ivs sfx (chans ! i)) (od @ [output_filename fn sfx]) (disk w) of
           Inl e \<Rightarrow> (Inl e, w)
         | Inr fs' \<Rightarrow>
             save_channels ivs fn od chans rest
               (w\<lparr>disk := fs', console := console w @ [Saved (od @ [output_filename fn sfx])]\<rparr>))
      else save_channels ivs fn od chans rest w)"
  by (simp add: save_channels_def Let_def print_lenient split: sum.splits)

lemma try_body_unfold:
  "try_body cfg filename w =
     (case Image_open (disk w) (input_folder cfg @ [filename]) of
        Inl e \<Rightarrow> (Inl e, w)
      | Inr img \<Rightarrow>
          (case normalised img of
             Inl e \<Rightarrow> (Inl e, w)
           | Inr rgba \<Rightarrow>
               (let channels = split_bands rgba
                in case ensure_output_dir cfg filename (disk w) of
                     Inl e \<Rightarrow> (Inl e, w)
                   | Inr fs' \<Rightarrow>
                       (case save_channels (invert_channels cfg) filename
                               (output_dir_of cfg filename) channels channel_info
                               (w\<lparr>disk := fs'\<rparr>) of
                          (Inl e, w') \<Rightarrow> (Inl e, w')
                        | (Inr u, w') \<Rightarrow>
                            (Inr (), w'\<lparr>console := console w' @ [Processed filename]\<rparr>)))))"
  by (simp add: try_body_def try_body_on_def save_channels_def Let_def print_lenient
      split: sum.splits prod.splits)

lemma process_entry_unfold:
  "process_entry cfg filename w =
     (if eligible filename then
        (case try_body cfg filename w of
           (Inl e, w') \<Rightarrow> (Inr (), w'\<lparr>console := console w' @ [Error filename e]\<rparr>)
         | (Inr u, w') \<Rightarrow> (Inr (), w'))
      else (Inr (), w))"
  by (simp add: process_entry_def process_entry_on_def try_body_def print_lenient
      split: sum.splits prod.splits)

lemma process_entries_Nil [simp]: "process_entries cfg [] w = (Inr (), w)"
  by (simp add: process_entries_def)

lemma process_entries_Cons [simp]:
  "process_entries cfg (filename # rest) w =
     (case process_entry cfg filename w of
        (Inl e, w') \<Rightarrow> (Inl e, w')
      | (Inr u, w') \<Rightarrow> process_entries cfg rest w')"
  unfolding process_entries_def process_entry_def by simp

lemma process_texture_channels_unfold:
  "process_texture_channels cfg w =
     (case ensure_output_folder cfg (disk w) of
        Inl e \<Rightarrow> (Inl e, w)
      | Inr fs1 \<Rightarrow>
          (case listdir fs1 (input_folder cfg) of
             Inl e \<Rightarrow> (Inl e, w\<lparr>disk := fs1\<rparr>)
           | Inr names \<Rightarrow>
               (case process_entries cfg names (w\<lparr>disk := fs1\<rparr>) of
                  (Inl e, w') \<Rightarrow> (Inl e, w')
                | (Inr u, w') \<Rightarrow> (Inr PNone, w'))))"
  unfolding process_texture_channels_def process_texture_channels_on_def process_entries_def
  by (rule refl)

subsection \<open>File names\<close>

lemma lower_char_dot: "lower_char c = CHR ''.'' \<longleftrightarrow> c = CHR ''.''"
  by (simp add: lower_char_def)

lemma lower_append: "lower (xs @ ys) = lower xs @ lower ys"
  by (simp add: lower_def)

lemma lower_Cons: "lower (x # xs) = lower_char x # lower xs"
  by (simp add: lower_def)

lemma length_lower: "length (lower s) = length s"
  by (simp add: lower_def)

lemma dot_in_lower: "CHR ''.'' \<in> set (lower s) \<longleftrightarrow> CHR ''.'' \<in> set s"
  by (induction s) (auto simp: lower_def lower_char_dot eq_commute[of "CHR ''.''"])

lemma rfind_absent: "c \<notin> set s \<Longrightarrow> rfind c s = -1"
  by (induction s) (auto simp: Let_def)

lemma rfind_ge: "- 1 \<le> rfind c s"
  by (induction s) (auto simp: Let_def)

lemma rfind_present: "c \<in> set s \<Longrightarrow> 0 \<le> rfind c s"
  by (induction s) (auto simp: Let_def)

lemma rfind_append:
  "rfind c (xs @ ys) = (if c \<in> set ys then int (length xs) + rfind c ys else rfind c xs)"
proof (induction xs)
  case Nil
  then show ?case by (simp add: rfind_absent)
next
  case (Cons x xs)
  then show ?case using rfind_present[of c ys] rfind_ge[of c ys]
    by (auto simp: Let_def rfind_absent)
qed

lemma rfind_split:
  assumes "c \<in> set s"
  shows "\<exists>r. s = take (nat (rfind c s)) s @ c # r \<and> c \<notin> set r \<and> drop (nat (rfind c s)) s = c # r"
  using assms
proof (induction s)
  case Nil
  then show ?case by simp
next
  case (Cons x xs)
  show ?case
  proof (cases "c \<in> set xs")
    case True
    with Cons.IH obtain r where r: "xs = take (nat (rfind c xs)) xs @ c # r" "c \<notin> set r"
      "drop (nat (rfind c xs)) xs = c # r" by blast
    have p: "0 \<le> rfind c xs" using True by (rule rfind_present)
    then have n: "nat (rfind c xs + 1) = Suc (nat (rfind c xs))" by simp
    show ?thesis using r p by (simp add: Let_def n)
  next
    case False
    then have "rfind c xs = -1" by (rule rfind_absent)
    moreover from False Cons.prems have "x = c" by simp
    ultimately show ?thesis using False by (simp add: Let_def)
  qed
qed

lemma splitext_cases:
  "splitext p = (p, []) \<or>
   (\<exists>r. splitext p = (take (nat (rfind (CHR ''.'') p)) p, CHR ''.'' # r) \<and>
        p = take (nat (rfind (CHR ''.'') p)) p @ CHR ''.'' # r \<and> CHR ''.'' \<notin> set r)"
proof (cases "CHR ''.'' \<in> set p")
  case True
  from rfind_split[OF True] obtain r where
    "p = take (nat (rfind (CHR ''.'') p)) p @ CHR ''.'' # r" "CHR ''.'' \<notin> set r"
    "drop (nat (rfind (CHR ''.'') p)) p = CHR ''.'' # r" by blast
  then show ?thesis by (auto simp: splitext_def Let_def)
next
  case False
  then have "rfind (CHR ''.'') p = -1" by (rule rfind_absent)
  then show ?thesis using rfind_ge[of "CHR ''/''" p] by (simp add: splitext_def Let_def)
qed

lemma base_name_cases:
  "base_name p = p \<or> (\<exists>r. p = base_name p @ CHR ''.'' # r \<and> CHR ''.'' \<notin> set r)"
  using splitext_cases[of p] by (auto simp: base_name_def)

lemma last_split_unique:
  assumes "ys1 @ c # zs1 = ys2 @ c # zs2" "c \<notin> set zs1" "c \<notin> set zs2"
  shows "ys1 = ys2 \<and> zs1 = zs2"
  using assms
  by (induction ys1 arbitrary: ys2) (auto simp: Cons_eq_append_conv)

lemma sublist_cut_tail:
  assumes "sublist xs (ys @ zs)" "xs \<noteq> []" "last xs \<notin> set zs"
  shows "sublist xs ys"
proof -
  from assms(1) consider "sublist xs ys" | "sublist xs zs"
    | xs1 xs2 where "xs = xs1 @ xs2" "suffix xs1 ys" "prefix xs2 zs"
    by (auto simp: sublist_append)
  then show ?thesis
  proof cases
    case 1
    then show ?thesis .
  next
    case 2
    then have "set xs \<subseteq> set zs" by (rule set_mono_sublist)
    with assms(2,3) show ?thesis using last_in_set by blast
  next
    case 3
    show ?thesis
    proof (cases "xs2 = []")
      case True
      with 3 show ?thesis by auto
    next
      case False
      then have "last xs = last xs2" using 3(1) by simp
      moreover have "set xs2 \<subseteq> set zs" using 3(3) by (rule set_mono_prefix)
      ultimately show ?thesis using assms(3) False last_in_set by fastforce
    qed
  qed
qed

subsection \<open>Output names are eligible names\<close>

lemma lower_suffix_literal:
  "sfx \<in> fst ` set channel_info \<Longrightarrow> lower (sfx @ ''.png'') = sfx @ ''.png''"
  by (auto simp: channel_info_def lower_def lower_char_def)

lemma lower_output_filename:
  "sfx \<in> fst ` set channel_info \<Longrightarrow>
   lower (output_filename fn sfx) = lower (base_name fn) @ sfx @ ''.png''"
  using lower_suffix_literal[of sfx] by (simp add: output_filename_def lower_append)

lemma supported_shape:
  "e \<in> set supported_formats \<Longrightarrow>
   \<exists>t. e = CHR ''.'' # t \<and> CHR ''.'' \<notin> set t \<and> CHR ''o'' \<notin> set e"
  by (auto simp: supported_formats_def)

lemma marker_in_base_name:
  assumes "eligible fn"
  shows "sublist ''_rmo'' (lower (base_name fn))"
proof -
  from assms have m: "sublist ''_rmo'' (lower fn)"
    and "\<exists>e \<in> set supported_formats. suffix e (lower fn)"
    by (auto simp: eligible_def list_ex_iff)
  then obtain e where e: "e \<in> set supported_formats" "suffix e (lower fn)" by blast
  from supported_shape[OF e(1)] obtain t where
    t: "e = CHR ''.'' # t" "CHR ''.'' \<notin> set t" "CHR ''o'' \<notin> set e" by blast
  from e(2) obtain pre where pre: "lower fn = pre @ e" by (auto simp: suffix_def)
  have cut: "sublist ''_rmo'' pre"
  proof (rule sublist_cut_tail[where zs = e])
    show "sublist ''_rmo'' (pre @ e)" using m by (simp add: pre)
    show "''_rmo'' \<noteq> []" by simp
    show "last ''_rmo'' \<notin> set e" using t(3) by simp
  qed
  from base_name_cases[of fn] show ?thesis
  proof
    assume "base_name fn = fn"
    with m show ?thesis by simp
  next
    assume "\<exists>r. fn = base_name fn @ CHR ''.'' # r \<and> CHR ''.'' \<notin> set r"
    then obtain r where r: "fn = base_name fn @ CHR ''.'' # r" "CHR ''.'' \<notin> set r" by blast
    have "lower fn = lower (base_name fn) @ CHR ''.'' # lower r"
      by (subst r(1)) (simp add: lower_append lower_Cons lower_char_dot)
    with pre t(1) have eq: "lower (base_name fn) @ CHR ''.'' # lower r = pre @ CHR ''.'' # t"
      by simp
    have nd: "CHR ''.'' \<notin> set (lower r)" using r(2) by (simp add: dot_in_lower)
    have "lower (base_name fn) = pre"
      using last_split_unique[OF eq nd t(2)] by simp
    with cut show ?thesis by simp
  qed
qed

text \<open>
  Claim C10. A file name that passes the eligibility filter yields four output names,
  base name plus \<open>_r.png\<close>, \<open>_g.png\<close>, \<open>_b.png\<close> and \<open>_a.png\<close>, and each
  of them passes the filter again: its lowercase form still contains \<open>_rmo\<close> and ends
  with \<open>.png\<close>.
\<close>

theorem eligible_closed_under_output_naming:
  assumes "eligible fn" and "sfx \<in> fst ` set channel_info"
  shows "eligible (output_filename fn sfx)"
proof -
  have l: "lower (output_filename fn sfx) = lower (base_name fn) @ sfx @ ''.png''"
    using assms(2) by (rule lower_output_filename)
  have "sublist ''_rmo'' (lower (base_name fn))" using assms(1) by (rule marker_in_base_name)
  then have "sublist ''_rmo'' (lower (output_filename fn sfx))"
    unfolding l by (simp add: sublist_append)
  moreover have "suffix ''.png'' (lower (output_filename fn sfx))"
    unfolding l by (simp add: suffix_def)
  ultimately show ?thesis by (simp add: eligible_def supported_formats_def)
qed

theorem eligible_closed_under_output_naming_witness:
  "eligible ''Metal_RMO.TGA'' \<and> ''_a'' \<in> fst ` set channel_info \<and>
   output_filename ''Metal_RMO.TGA'' ''_a'' = ''Metal_RMO_a.png'' \<and>
   eligible ''Metal_RMO_a.png''"
proof -
  have e: "eligible ''Metal_RMO.TGA''" by code_simp
  have s: "''_a'' \<in> fst ` set channel_info" by (simp add: channel_info_def)
  have n: "output_filename ''Metal_RMO.TGA'' ''_a'' = ''Metal_RMO_a.png''"
    by (simp add: output_filename_def base_name_def splitext_def)
  from eligible_closed_under_output_naming[OF e s] e s n show ?thesis by simp
qed

subsection \<open>The file system\<close>

lemma lookup_update:
  "p \<noteq> [] \<Longrightarrow> lookup (AList.update p n fs) q = (if q = p then Some n else lookup fs q)"
  by (simp add: lookup_def update_conv')

lemma rfind_less: "rfind c s < int (length s)"
  by (induction s) (auto simp: Let_def)

lemma rfind_not_last:
  assumes "s \<noteq> []" "last s \<noteq> c"
  shows "rfind c s < int (length s) - 1"
proof -
  have "rfind c (butlast s @ [last s]) = rfind c (butlast s)"
    using assms(2) by (simp add: rfind_append)
  then have "rfind c s = rfind c (butlast s)" using assms(1) by simp
  moreover have "rfind c (butlast s) < int (length (butlast s))" by (rule rfind_less)
  moreover have "int (length (butlast s)) = int (length s) - 1"
    using assms(1) by (cases s) simp_all
  ultimately show ?thesis by simp
qed

lemma splitext_png:
  assumes "x \<noteq> []" "last x \<noteq> CHR ''.''" "last x \<noteq> CHR ''/''"
  shows "splitext (x @ ''.png'') = (x, ''.png'')"
proof -
  define sep where "sep = rfind (CHR ''/'') x"
  have d: "rfind (CHR ''.'') (x @ ''.png'') = int (length x)"
    by (simp add: rfind_append)
  have s: "rfind (CHR ''/'') (x @ ''.png'') = sep"
    by (simp add: rfind_append sep_def)
  have lt: "sep < int (length x) - 1" unfolding sep_def using assms(1,3) by (rule rfind_not_last)
  have ge: "- 1 \<le> sep" unfolding sep_def by (rule rfind_ge)
  have n: "nat (sep + 1) < length x" using lt ge by linarith
  have sl: "take (nat (int (length x) - (sep + 1))) (drop (nat (sep + 1)) (x @ ''.png''))
            = drop (nat (sep + 1)) x"
    using n ge by (simp add: nat_diff_distrib')
  have "last x \<in> set (drop (nat (sep + 1)) x)"
    using n assms(1) by (metis drop_eq_Nil last_drop last_in_set not_le)
  then have ex: "list_ex (\<lambda>c. c \<noteq> CHR ''.'') (drop (nat (sep + 1)) x)"
    using assms(2) by (auto simp: list_ex_iff)
  show ?thesis
    unfolding splitext_def d s Let_def sl using ex lt by simp
qed

lemma splitext_output_filename:
  assumes "sfx \<in> fst ` set channel_info"
  shows "splitext (output_filename fn sfx) = (base_name fn @ sfx, ''.png'')"
proof -
  have "base_name fn @ sfx \<noteq> [] \<and> last (base_name fn @ sfx) \<noteq> CHR ''.'' \<and>
        last (base_name fn @ sfx) \<noteq> CHR ''/''"
    using assms by (auto simp: channel_info_def)
  then show ?thesis
    using splitext_png[of "base_name fn @ sfx"] by (simp add: output_filename_def)
qed

lemma save_output:
  assumes "sfx \<in> fst ` set channel_info"
  shows "save img (od @ [output_filename fn sfx]) fs =
     (case lookup fs od of
        None \<Rightarrow> Inl FileNotFoundError
      | Some (File c) \<Rightarrow> Inl NotADirectoryError
      | Some Dir \<Rightarrow>
          (if lookup fs (od @ [output_filename fn sfx]) = Some Dir then Inl IsADirectoryError
           else Inr (AList.update (od @ [output_filename fn sfx]) (File (Encoded PNG img)) fs)))"
proof -
  have "map_of EXTENSION (lower (snd (splitext (output_filename fn sfx)))) = Some PNG"
    by (simp add: splitext_output_filename[OF assms] EXTENSION_def lower_def lower_char_def)
  then show ?thesis
    by (auto simp: save_def split: option.splits node.splits)
qed

lemma output_filename_inj: "output_filename fn s = output_filename fn s' \<longleftrightarrow> s = s'"
  by (simp add: output_filename_def)


subsection \<open>The loop over the channels\<close>

lemma reported_append: "reported (xs @ ys) = reported xs @ reported ys"
  by (induction xs rule: reported.induct) simp_all

lemma saved_paths_append: "saved_paths (xs @ ys) = saved_paths xs @ saved_paths ys"
  by (induction xs rule: saved_paths.induct) simp_all

lemma count_processed_append:
  "count_processed (xs @ ys) = count_processed xs + count_processed ys"
  by (induction xs rule: count_processed.induct) simp_all

lemma count_failed_append: "count_failed (xs @ ys) = count_failed xs + count_failed ys"
  by (induction xs rule: count_failed.induct) simp_all

lemma reported_Saved: "reported (map (Saved \<circ> f) xs) = []"
  by (induction xs) simp_all

lemma saved_paths_Saved: "saved_paths (map (Saved \<circ> f) xs) = map f xs"
  by (induction xs) simp_all

lemma count_processed_Saved: "count_processed (map (Saved \<circ> f) xs) = 0"
  by (induction xs) simp_all

lemma count_failed_Saved: "count_failed (map (Saved \<circ> f) xs) = 0"
  by (induction xs) simp_all

lemma save_channels_result:
  assumes "\<forall>(s, i) \<in> set ci. i < length chans \<and> s \<in> fst ` set channel_info"
    and "distinct (map fst ci)"
  shows "\<exists>k \<le> length ci.
           console (snd (save_channels ivs fn od chans ci w)) =
             console w @ map (\<lambda>(s, i). Saved (od @ [output_filename fn s])) (take k ci) \<and>
           (fst (save_channels ivs fn od chans ci w) = Inr () \<longleftrightarrow> k = length ci) \<and>
           (\<forall>(s, i) \<in> set (take k ci).
              lookup (disk (snd (save_channels ivs fn od chans ci w)))
                (od @ [output_filename fn s]) =
              Some (File (Encoded PNG (emitted ivs s (chans ! i))))) \<and>
           (\<forall>q. q \<notin> (\<lambda>(s, i). od @ [output_filename fn s]) ` set (take k ci) \<longrightarrow>
              lookup (disk (snd (save_channels ivs fn od chans ci w))) q = lookup (disk w) q)"
  using assms
proof (induction ci arbitrary: w)
  case Nil
  then show ?case by simp
next
  case (Cons a ci)
  obtain s i where a: "a = (s, i)" by (cases a)
  from Cons.prems a have i: "i < length chans" and s: "s \<in> fst ` set channel_info" by auto
  from Cons.prems have rest: "\<forall>(s, i) \<in> set ci. i < length chans \<and> s \<in> fst ` set channel_info"
    and dist: "distinct (map fst ci)" and fresh: "s \<notin> fst ` set ci"
    using a by auto
  let ?p = "od @ [output_filename fn s]"
  let ?img = "emitted ivs s (chans ! i)"
  show ?case
  proof (cases "save ?img ?p (disk w)")
    case (Inl e)
    then have "save_channels ivs fn od chans (a # ci) w = (Inl e, w)"
      using i by (simp add: a)
    then show ?thesis by (intro exI[of _ 0]) simp
  next
    case (Inr fs')
    define w1 where "w1 = w\<lparr>disk := fs', console := console w @ [Saved ?p]\<rparr>"
    have step: "save_channels ivs fn od chans (a # ci) w = save_channels ivs fn od chans ci w1"
      using i Inr by (simp add: a w1_def)
    from Inr have fs': "fs' = AList.update ?p (File (Encoded PNG ?img)) (disk w)"
      by (auto simp: save_output[OF s] split: option.splits node.splits if_splits)
    have lk: "lookup (disk w1) q = (if q = ?p then Some (File (Encoded PNG ?img)) else lookup (disk w) q)"
      for q by (simp add: w1_def fs' lookup_update)
    from Cons.IH[OF rest dist, of w1] obtain k where k: "k \<le> length ci"
      "console (snd (save_channels ivs fn od chans ci w1)) =
         console w1 @ map (\<lambda>(s, i). Saved (od @ [output_filename fn s])) (take k ci)"
      "fst (save_channels ivs fn od chans ci w1) = Inr () \<longleftrightarrow> k = length ci"
      "\<forall>(s, i) \<in> set (take k ci).
          lookup (disk (snd (save_channels ivs fn od chans ci w1))) (od @ [output_filename fn s]) =
          Some (File (Encoded PNG (emitted ivs s (chans ! i))))"
      "\<forall>q. q \<notin> (\<lambda>(s, i). od @ [output_filename fn s]) ` set (take k ci) \<longrightarrow>
          lookup (disk (snd (save_channels ivs fn od chans ci w1))) q = lookup (disk w1) q"
      by blast
    have notin: "?p \<notin> (\<lambda>(s, i). od @ [output_filename fn s]) ` set (take k ci)"
    proof
      assume "?p \<in> (\<lambda>(s, i). od @ [output_filename fn s]) ` set (take k ci)"
      then obtain s' i' where "(s', i') \<in> set (take k ci)" "?p = od @ [output_filename fn s']"
        by auto
      then have "s = s'" "(s', i') \<in> set ci"
        by (auto simp: output_filename_inj dest: in_set_takeD)
      with fresh show False by force
    qed
    have c1: "console (snd (save_channels ivs fn od chans (a # ci) w)) =
        console w @ map (\<lambda>(s, i). Saved (od @ [output_filename fn s])) (take (Suc k) (a # ci))"
      unfolding step k(2) by (simp add: w1_def a)
    have c2: "fst (save_channels ivs fn od chans (a # ci) w) = Inr () \<longleftrightarrow>
        Suc k = length (a # ci)"
      unfolding step using k(3) by simp
    have c3: "\<forall>(s, i) \<in> set (take (Suc k) (a # ci)).
        lookup (disk (snd (save_channels ivs fn od chans (a # ci) w))) (od @ [output_filename fn s]) =
        Some (File (Encoded PNG (emitted ivs s (chans ! i))))"
      unfolding step using k(4) k(5) notin lk by (auto simp: a)
    have c4: "\<forall>q. q \<notin> (\<lambda>(s, i). od @ [output_filename fn s]) ` set (take (Suc k) (a # ci)) \<longrightarrow>
        lookup (disk (snd (save_channels ivs fn od chans (a # ci) w))) q = lookup (disk w) q"
      unfolding step using k(5) lk by (auto simp: a)
    from k(1) c1 c2 c3 c4 show ?thesis
      by (intro exI[of _ "Suc k"]) simp
  qed
qed


subsection \<open>The body of the try statement\<close>

lemma normalised_is_RGBA:
  "normalised img = Inr rgba \<Longrightarrow> \<exists>sz r g b a. rgba = Rgba sz r g b a"
  by (cases img) (auto simp: normalised_def)

text \<open>With a transparency key, the alpha of a pixel that equals the key is 0.\<close>

lemma transparency_key_alpha:
  "normalised (GrayKeyed (2, 1) [0, 7] 0) = Inr (Rgba (2, 1) [0, 7] [0, 7] [0, 7] [0, 255])"
  by (simp add: normalised_def keyed_alpha_def)

lemma length_channels: "normalised img = Inr rgba \<Longrightarrow> length (split_bands rgba) = 4"
  by (drule normalised_is_RGBA) auto

lemma channel_info_ok:
  "normalised img = Inr rgba \<Longrightarrow>
   \<forall>(s, i) \<in> set channel_info.
     i < length (split_bands rgba) \<and> s \<in> fst ` set channel_info"
  by (simp add: length_channels) (simp add: channel_info_def)

lemma distinct_channel_info: "distinct (map fst channel_info)"
  by (simp add: channel_info_def)

lemma length_channel_info: "length channel_info = 4"
  by (simp add: channel_info_def)

lemma try_body_decode_fails:
  "Image_open (disk w) (input_folder cfg @ [fn]) = Inl e \<Longrightarrow> try_body cfg fn w = (Inl e, w)"
  by (simp add: try_body_unfold)

lemma try_body_convert_fails:
  "Image_open (disk w) (input_folder cfg @ [fn]) = Inr img \<Longrightarrow>
   normalised img = Inl e \<Longrightarrow> try_body cfg fn w = (Inl e, w)"
  by (simp add: try_body_unfold)

lemma try_body_dir_fails:
  "Image_open (disk w) (input_folder cfg @ [fn]) = Inr img \<Longrightarrow>
   normalised img = Inr rgba \<Longrightarrow>
   ensure_output_dir cfg fn (disk w) = Inl e \<Longrightarrow> try_body cfg fn w = (Inl e, w)"
  by (simp add: try_body_unfold)

lemma try_body_saves:
  assumes "Image_open (disk w) (input_folder cfg @ [fn]) = Inr img"
    and "normalised img = Inr rgba"
    and "ensure_output_dir cfg fn (disk w) = Inr fs1"
  shows "\<exists>k \<le> 4.
           console (snd (try_body cfg fn w)) =
             console w @ map (\<lambda>(s, i). Saved (output_path cfg fn s)) (take k channel_info)
               @ (if k = 4 then [Processed fn] else []) \<and>
           (fst (try_body cfg fn w) = Inr () \<longleftrightarrow> k = 4) \<and>
           (\<forall>(s, i) \<in> set (take k channel_info).
              lookup (disk (snd (try_body cfg fn w))) (output_path cfg fn s) =
              Some (File (Encoded PNG
                (emitted (invert_channels cfg) s (split_bands rgba ! i))))) \<and>
           (\<forall>q. q \<notin> (\<lambda>(s, i). output_path cfg fn s) ` set (take k channel_info) \<longrightarrow>
              lookup (disk (snd (try_body cfg fn w))) q = lookup fs1 q)"
proof -
  let ?chans = "split_bands rgba"
  let ?sc = "save_channels (invert_channels cfg) fn (output_dir_of cfg fn) ?chans channel_info
               (w\<lparr>disk := fs1\<rparr>)"
  from save_channels_result[where ci = channel_info and chans = ?chans
      and ivs = "invert_channels cfg" and fn = fn and od = "output_dir_of cfg fn"
      and w = "w\<lparr>disk := fs1\<rparr>", OF channel_info_ok[OF assms(2)] distinct_channel_info]
  obtain k where k: "k \<le> length channel_info"
    "console (snd ?sc) = console w @
       map (\<lambda>(s, i). Saved (output_dir_of cfg fn @ [output_filename fn s])) (take k channel_info)"
    "fst ?sc = Inr () \<longleftrightarrow> k = length channel_info"
    "\<forall>(s, i) \<in> set (take k channel_info).
        lookup (disk (snd ?sc)) (output_dir_of cfg fn @ [output_filename fn s]) =
        Some (File (Encoded PNG (emitted (invert_channels cfg) s (?chans ! i))))"
    "\<forall>q. q \<notin> (\<lambda>(s, i). output_dir_of cfg fn @ [output_filename fn s]) ` set (take k channel_info) \<longrightarrow>
        lookup (disk (snd ?sc)) q = lookup fs1 q"
    by auto
  have tb: "try_body cfg fn w =
      (case ?sc of (Inl e, w') \<Rightarrow> (Inl e, w')
                 | (Inr u, w') \<Rightarrow> (Inr (), w'\<lparr>console := console w' @ [Processed fn]\<rparr>))"
    using assms by (simp add: try_body_unfold)
  obtain r w' where sc: "?sc = (r, w')" by (cases ?sc)
  show ?thesis
  proof (cases r)
    case (Inl e)
    then have "try_body cfg fn w = (Inl e, w')" by (simp add: tb sc)
    moreover from Inl k(3) have "k \<noteq> 4" by (simp add: sc length_channel_info)
    ultimately show ?thesis
      using k by (intro exI[of _ k]) (simp add: sc length_channel_info output_path_def)
  next
    case (Inr u)
    then have "try_body cfg fn w = (Inr (), w'\<lparr>console := console w' @ [Processed fn]\<rparr>)"
      by (simp add: tb sc)
    moreover from Inr k(3) have "k = 4" by (simp add: sc length_channel_info)
    ultimately show ?thesis
      using k by (intro exI[of _ k]) (simp add: sc length_channel_info output_path_def)
  qed
qed


lemma try_body_console:
  "\<exists>k \<le> 4.
     console (snd (try_body cfg fn w)) =
       console w @ map (\<lambda>(s, i). Saved (output_path cfg fn s)) (take k channel_info)
         @ (if fst (try_body cfg fn w) = Inr () then [Processed fn] else []) \<and>
     (fst (try_body cfg fn w) = Inr () \<longrightarrow> k = 4)"
proof (cases "Image_open (disk w) (input_folder cfg @ [fn])")
  case (Inl e)
  then show ?thesis by (intro exI[of _ 0]) (simp add: try_body_decode_fails)
next
  case (Inr img)
  show ?thesis
  proof (cases "normalised img")
    case (Inl e)
    with Inr show ?thesis by (intro exI[of _ 0]) (simp add: try_body_convert_fails)
  next
    case rgba: (Inr rgba)
    show ?thesis
    proof (cases "ensure_output_dir cfg fn (disk w)")
      case (Inl e)
      with Inr rgba show ?thesis by (intro exI[of _ 0]) (simp add: try_body_dir_fails)
    next
      case fs1: (Inr fs1)
      from try_body_saves[OF Inr rgba fs1] obtain k where "k \<le> 4"
        "console (snd (try_body cfg fn w)) =
               console w @ map (\<lambda>(s, i). Saved (output_path cfg fn s)) (take k channel_info)
                 @ (if k = 4 then [Processed fn] else [])"
        "fst (try_body cfg fn w) = Inr () \<longleftrightarrow> k = 4"
        by blast
      then show ?thesis by (intro exI[of _ k]) simp
    qed
  qed
qed

subsection \<open>One directory entry, and all of them\<close>

lemma process_entry_skips: "\<not> eligible fn \<Longrightarrow> process_entry cfg fn w = (Inr (), w)"
  by (simp add: process_entry_unfold)

lemma process_entry_caught: "fst (process_entry cfg fn w) = Inr ()"
  by (simp add: process_entry_unfold split: prod.splits sum.splits)

lemma process_entry_ok:
  "eligible fn \<Longrightarrow> fst (try_body cfg fn w) = Inr () \<Longrightarrow>
   process_entry cfg fn w = (Inr (), snd (try_body cfg fn w))"
  by (cases "try_body cfg fn w") (auto simp: process_entry_unfold split: sum.splits)

lemma process_entry_error:
  "eligible fn \<Longrightarrow> fst (try_body cfg fn w) = Inl e \<Longrightarrow>
   process_entry cfg fn w =
     (Inr (), (snd (try_body cfg fn w))
        \<lparr>console := console (snd (try_body cfg fn w)) @ [Error fn e]\<rparr>)"
  by (cases "try_body cfg fn w") (auto simp: process_entry_unfold split: sum.splits)

lemma process_entry_console:
  assumes "eligible fn"
  shows "\<exists>k \<le> 4. \<exists>line.
           console (snd (process_entry cfg fn w)) =
             console w @ map (\<lambda>(s, i). Saved (output_path cfg fn s)) (take k channel_info)
               @ [line] \<and>
           (line = Processed fn \<and> k = 4 \<and> fst (try_body cfg fn w) = Inr () \<or>
            (\<exists>e. line = Error fn e \<and> fst (try_body cfg fn w) = Inl e))"
proof -
  from try_body_console[of cfg fn w] obtain k where k: "k \<le> 4"
    "console (snd (try_body cfg fn w)) =
       console w @ map (\<lambda>(s, i). Saved (output_path cfg fn s)) (take k channel_info)
         @ (if fst (try_body cfg fn w) = Inr () then [Processed fn] else [])"
    "fst (try_body cfg fn w) = Inr () \<longrightarrow> k = 4"
    by blast
  show ?thesis
  proof (cases "fst (try_body cfg fn w)")
    case (Inl e)
    with k show ?thesis
      by (intro exI[of _ k]) (simp add: process_entry_error[OF assms Inl])
  next
    case (Inr u)
    then have ok: "fst (try_body cfg fn w) = Inr ()" by simp
    with k show ?thesis
      by (intro exI[of _ k]) (simp add: process_entry_ok[OF assms ok])
  qed
qed

lemma process_entry_reported:
  "\<exists>new. console (snd (process_entry cfg fn w)) = console w @ new \<and>
         reported new = (if eligible fn then [fn] else []) \<and>
         count_processed new + count_failed new = (if eligible fn then 1 else 0)"
proof (cases "eligible fn")
  case True
  from process_entry_console[OF True, of cfg w] obtain k line where
    c: "console (snd (process_entry cfg fn w)) =
         console w @ map (\<lambda>(s, i). Saved (output_path cfg fn s)) (take k channel_info) @ [line]"
    and l: "line = Processed fn \<or> (\<exists>e. line = Error fn e)"
    by blast
  let ?new = "map (\<lambda>(s, i). Saved (output_path cfg fn s)) (take k channel_info) @ [line]"
  have m: "(\<lambda>(s, i). Saved (output_path cfg fn s)) = Saved \<circ> (\<lambda>(s, i). output_path cfg fn s)"
    by (simp add: fun_eq_iff)
  have "reported ?new = [fn]"
    using l unfolding m by (auto simp: reported_append reported_Saved)
  moreover have "count_processed ?new + count_failed ?new = 1"
    using l unfolding m
    by (auto simp: count_processed_append count_failed_append
        count_processed_Saved count_failed_Saved)
  ultimately show ?thesis using c True by (intro exI[of _ ?new]) simp
next
  case False
  then show ?thesis by (simp add: process_entry_skips)
qed

lemma process_entries_caught: "fst (process_entries cfg names w) = Inr ()"
proof (induction names arbitrary: w)
  case Nil
  then show ?case by simp
next
  case (Cons fn names)
  obtain r w' where p: "process_entry cfg fn w = (r, w')" by (cases "process_entry cfg fn w")
  with process_entry_caught[of cfg fn w] have "r = Inr ()" by simp
  with p Cons.IH[of w'] show ?case by simp
qed

lemma process_entries_step:
  "process_entries cfg (fn # names) w = process_entries cfg names (snd (process_entry cfg fn w))"
  using process_entry_caught[of cfg fn w]
  by (cases "process_entry cfg fn w") (simp split: sum.splits)

lemma process_entries_append:
  "process_entries cfg (xs @ ys) w = process_entries cfg ys (snd (process_entries cfg xs w))"
  by (induction xs arbitrary: w) (simp_all only: process_entries_step append_Cons append_Nil
      process_entries_Nil process_entries_Cons snd_conv)

lemma process_entries_reported:
  "\<exists>new. console (snd (process_entries cfg names w)) = console w @ new \<and>
         reported new = filter eligible names \<and>
         count_processed new + count_failed new = length (filter eligible names)"
proof (induction names arbitrary: w)
  case Nil
  then show ?case by simp
next
  case (Cons fn names)
  let ?w1 = "snd (process_entry cfg fn w)"
  from process_entry_reported[of cfg fn w] obtain n1 where n1:
    "console ?w1 = console w @ n1" "reported n1 = (if eligible fn then [fn] else [])"
    "count_processed n1 + count_failed n1 = (if eligible fn then 1 else 0)"
    by blast
  from Cons.IH[of ?w1] obtain n2 where n2:
    "console (snd (process_entries cfg names ?w1)) = console ?w1 @ n2"
    "reported n2 = filter eligible names"
    "count_processed n2 + count_failed n2 = length (filter eligible names)"
    by blast
  show ?case
    unfolding process_entries_step using n1 n2
    by (intro exI[of _ "n1 @ n2"])
      (auto simp: reported_append count_processed_append count_failed_append)
qed

text \<open>An image of a mode without a conversion to RGBA is a failure of its file.\<close>

lemma unconvertible_is_logged:
  assumes "eligible fn"
    and "Image_open (disk w) (input_folder cfg @ [fn]) = Inr (Unconvertible m sz)"
  shows "process_entry cfg fn w = (Inr (), w\<lparr>console := console w @ [Error fn ValueError]\<rparr>)"
  using assms by (simp add: process_entry_unfold try_body_unfold normalised_def)

subsection \<open>Failures\<close>

text \<open>
  On a standard output that accepts every line, a failure while one source file is processed
  is caught by the \<open>except\<close> clause of that file: the entry ends normally with an
  \<open>Error\<close> line, the entries after a failed one are processed from the world the
  failed one left, and at the end of the run every eligible entry of the listing has its own
  line, in listing order.
\<close>

lemma failures_contained_when_lines_accepted:
  assumes "ensure_output_folder cfg (disk w) = Inr fs1"
    and "listdir fs1 (input_folder cfg) = Inr names"
  shows "fst (process_texture_channels cfg w) = Inr PNone \<and>
         reported (console (snd (process_texture_channels cfg w))) =
           reported (console w) @ filter eligible names \<and>
         (\<forall>fn w1. fst (process_entry cfg fn w1) = Inr ()) \<and>
         (\<forall>fn w1 e. eligible fn \<longrightarrow> fst (try_body cfg fn w1) = Inl e \<longrightarrow>
            process_entry cfg fn w1 =
              (Inr (), (snd (try_body cfg fn w1))
                 \<lparr>console := console (snd (try_body cfg fn w1)) @ [Error fn e]\<rparr>)) \<and>
         (\<forall>before fn after w1.
            process_entries cfg (before @ fn # after) w1 =
              process_entries cfg after
                (snd (process_entry cfg fn (snd (process_entries cfg before w1)))))"
proof -
  let ?w1 = "w\<lparr>disk := fs1\<rparr>"
  have run: "process_texture_channels cfg w =
      (Inr PNone, snd (process_entries cfg names ?w1))"
    using assms process_entries_caught[of cfg names ?w1]
    by (cases "process_entries cfg names ?w1") (simp add: process_texture_channels_unfold)
  from process_entries_reported[of cfg names ?w1] obtain new where
    "console (snd (process_entries cfg names ?w1)) = console ?w1 @ new"
    "reported new = filter eligible names"
    by blast
  then have rep: "reported (console (snd (process_texture_channels cfg w))) =
      reported (console w) @ filter eligible names"
    by (simp add: run reported_append)
  have seq: "process_entries cfg (before @ fn # after) w1 =
      process_entries cfg after
        (snd (process_entry cfg fn (snd (process_entries cfg before w1))))"
    for before fn after w1
    by (simp only: process_entries_append process_entries_step)
  show ?thesis
    using run rep seq process_entry_caught process_entry_error by simp
qed

subsection \<open>The eligibility filter\<close>

lemma sublist_iff_split: "sublist xs ys \<longleftrightarrow> (\<exists>pre post. ys = pre @ xs @ post)"
  by (simp add: sublist_def)

lemma suffix_iff_drop:
  "suffix e s \<longleftrightarrow> length e \<le> length s \<and> drop (length s - length e) s = e"
proof
  assume "suffix e s"
  then obtain pre where "s = pre @ e" by (auto simp: suffix_def)
  then show "length e \<le> length s \<and> drop (length s - length e) s = e" by simp
next
  assume "length e \<le> length s \<and> drop (length s - length e) s = e"
  then have "suffix (drop (length s - length e) s) s \<Longrightarrow> suffix e s" by simp
  then show "suffix e s" by (simp add: suffix_drop)
qed

lemma lower_supported: "e \<in> set supported_formats \<Longrightarrow> lower e = e"
  by (auto simp: supported_formats_def lower_def lower_char_def)

lemma eligible_iff_spec: "eligible fn \<longleftrightarrow> spec_eligible fn"
proof -
  have "suffix e (lower fn) \<longleftrightarrow>
        length e \<le> length fn \<and> lower (drop (length fn - length e) fn) = lower e"
    if "e \<in> set supported_formats" for e
    using lower_supported[OF that]
    by (simp add: suffix_iff_drop length_lower) (simp add: lower_def drop_map)
  then show ?thesis
    by (auto simp: eligible_def spec_eligible_def list_ex_iff sublist_iff_split)
qed

text \<open>
  Claim C3. A directory entry is processed exactly when its name is eligible in the sense
  of the specification: the lowercase name contains \<open>_rmo\<close> and the name ends, without
  regard to case, with one of the eight extensions. An eligible entry gets one line of its
  own on the console; an entry that is not eligible leaves the world as it is, with no
  output and no line. The mixed-case name \<open>Metal_RMO.TGA\<close> is eligible.
\<close>

theorem entry_processed_iff_eligible:
  "(eligible fn \<longleftrightarrow> spec_eligible fn) \<and>
   reported (console (snd (process_entry cfg fn w))) =
     reported (console w) @ (if spec_eligible fn then [fn] else []) \<and>
   (\<not> spec_eligible fn \<longrightarrow> process_entry cfg fn w = (Inr (), w)) \<and>
   spec_eligible ''Metal_RMO.TGA''"
proof -
  from process_entry_reported[of cfg fn w] obtain new where
    "console (snd (process_entry cfg fn w)) = console w @ new"
    "reported new = (if eligible fn then [fn] else [])"
    by blast
  then have "reported (console (snd (process_entry cfg fn w))) =
     reported (console w) @ (if spec_eligible fn then [fn] else [])"
    by (simp add: reported_append eligible_iff_spec)
  moreover have "eligible ''Metal_RMO.TGA''" by code_simp
  ultimately show ?thesis
    using process_entry_skips[of fn cfg w] by (simp add: eligible_iff_spec)
qed

theorem entry_processed_iff_eligible_witness:
  "\<not> spec_eligible ''floor_diffuse.png'' \<and>
   process_entry example_config ''floor_diffuse.png'' example_world = (Inr (), example_world) \<and>
   spec_eligible ''Metal_RMO.TGA'' \<and>
   reported (console (snd (process_entry example_config ''Metal_RMO.TGA'' example_world))) =
     [''Metal_RMO.TGA'']"
proof -
  have a: "\<not> eligible ''floor_diffuse.png''" by code_simp
  have c: "reported (console example_world) = []" by (simp add: example_world_def)
  from entry_processed_iff_eligible[of "''floor_diffuse.png''" example_config example_world]
    entry_processed_iff_eligible[of "''Metal_RMO.TGA''" example_config example_world] a c
  show ?thesis by simp
qed

subsection \<open>The result of a run\<close>

lemma run_completes:
  assumes "ensure_output_folder cfg (disk w) = Inr fs1"
    and "listdir fs1 (input_folder cfg) = Inr names"
  shows "process_texture_channels cfg w =
           (Inr PNone, snd (process_entries cfg names (w\<lparr>disk := fs1\<rparr>)))"
  using assms process_entries_caught[of cfg names "w\<lparr>disk := fs1\<rparr>"]
  by (cases "process_entries cfg names (w\<lparr>disk := fs1\<rparr>)")
    (simp add: process_texture_channels_unfold)




subsection \<open>What is written for a source file\<close>

text \<open>
  Claim C1. The claim is that the number of planes emitted for a source image is the minimum
  of 4 and the channel count of the decoded image, so that an image decoded without alpha
  gets no alpha-suffixed file. The guard of line 68 is there for that, but lines 46 and 47
  have converted the image to RGBA before, so the guard never skips. The run below decodes
  an RGB image of three bands and saves four files; the fourth is the alpha-suffixed file,
  filled with 255.
\<close>

theorem rgb_source_gets_alpha_file:
  "Image_open (disk example_world) (input_folder example_config @ [''wall_rmo.png'']) =
     Inr (Rgb (1, 1) [200] [100] [50]) \<and>
   band_count (Rgb (1, 1) [200] [100] [50]) = 3 \<and>
   saved_paths (console (snd (process_texture_channels example_config example_world))) =
     [[''out'', ''wall_rmo'', ''wall_rmo_r.png''], [''out'', ''wall_rmo'', ''wall_rmo_g.png''],
      [''out'', ''wall_rmo'', ''wall_rmo_b.png''], [''out'', ''wall_rmo'', ''wall_rmo_a.png'']] \<and>
   length (saved_paths (console (snd (process_texture_channels example_config example_world))))
     \<noteq> min 4 (band_count (Rgb (1, 1) [200] [100] [50])) \<and>
   lookup (disk (snd (process_texture_channels example_config example_world)))
     [''out'', ''wall_rmo'', ''wall_rmo_a.png''] = Some (File (Encoded PNG (Gray (1, 1) [255])))"
  by code_simp

subsection \<open>The channel that is saved\<close>

lemma unat_invert_pixel: "unat (255 - v :: 8 word) = 255 - unat v"
proof -
  have "(255 :: 8 word) = - 1" by simp
  then have "v \<le> 255" by (simp only: word_n1_ge)
  then show ?thesis by (simp add: unat_sub)
qed

lemma wants_invert_iff:
  "wants_invert ivs s \<longleftrightarrow> (\<exists>l. ivs = Some l \<and> [s ! 1] \<in> set l)"
  by (cases ivs) (auto simp: wants_invert_def)

lemma channel_is_gray:
  assumes "(s, i) \<in> set channel_info"
    and "normalised img = Inr rgba"
  shows "\<exists>sz src. split_bands rgba ! i = Gray sz src"
  using assms(1) normalised_is_RGBA[OF assms(2)] by (auto simp: channel_info_def)

lemma emitted_gray:
  "emitted ivs s (Gray sz src) =
     Gray sz (if wants_invert ivs s then invert_plane src else src)"
  by (simp add: emitted_def)

subsection \<open>The output paths\<close>

lemma emitted_is_gray:
  assumes "(s, i) \<in> set channel_info"
    and "normalised img = Inr rgba"
  shows "\<exists>sz px. emitted ivs s (split_bands rgba ! i) = Gray sz px"
proof -
  from channel_is_gray[OF assms] obtain sz src where
    "split_bands rgba ! i = Gray sz src" by blast
  then show ?thesis by (simp add: emitted_gray)
qed

lemma output_paths_layout:
  "map (\<lambda>(s, i). output_path cfg fn s) channel_info =
     map (\<lambda>s. output_folder cfg @ (if create_subfolders cfg then [base_name fn] else [])
                @ [base_name fn @ s @ ''.png''])
       [''_r'', ''_g'', ''_b'', ''_a'']"
  by (simp add: channel_info_def output_path_def output_dir_of_def output_filename_def)

subsection \<open>Entries of the invert set that name no channel\<close>

lemma wants_invert_restrict:
  assumes "s \<in> fst ` set channel_info"
  shows "wants_invert (restrict_invert ivs) s = wants_invert ivs s"
proof (cases ivs)
  case None
  then show ?thesis by (simp add: restrict_invert_def)
next
  case (Some l)
  have "[s ! 1] \<in> set [''r'', ''g'', ''b'', ''a'']"
    using assms by (auto simp: channel_info_def)
  then show ?thesis
    unfolding wants_invert_iff by (auto simp: Some restrict_invert_def)
qed

lemma save_channels_restrict:
  assumes "\<forall>(s, i) \<in> set ci. s \<in> fst ` set channel_info"
  shows "save_channels (restrict_invert ivs) fn od chans ci w =
         save_channels ivs fn od chans ci w"
  using assms
proof (induction ci arbitrary: w)
  case Nil
  then show ?case by simp
next
  case (Cons a ci)
  obtain s i where a: "a = (s, i)" by (cases a)
  from Cons.prems a have s: "s \<in> fst ` set channel_info"
    and rest: "\<forall>(s, i) \<in> set ci. s \<in> fst ` set channel_info" by auto
  have e: "emitted (restrict_invert ivs) s c = emitted ivs s c" for c
    by (simp add: emitted_def wants_invert_restrict[OF s])
  show ?case
    by (simp add: a e Let_def Cons.IH[OF rest] split: sum.splits)
qed

lemma try_body_restrict:
  "try_body (cfg\<lparr>invert_channels := restrict_invert (invert_channels cfg)\<rparr>) fn w =
   try_body cfg fn w"
proof -
  let ?cfg = "cfg\<lparr>invert_channels := restrict_invert (invert_channels cfg)\<rparr>"
  have h: "\<forall>(s, i) \<in> set channel_info. s \<in> fst ` set channel_info" by force
  have 1: "ensure_output_dir ?cfg fn fs = ensure_output_dir cfg fn fs" for fs
    by (simp add: ensure_output_dir_def)
  have 2: "output_dir_of ?cfg fn = output_dir_of cfg fn"
    by (simp add: output_dir_of_def)
  have 3: "input_folder ?cfg = input_folder cfg" by simp
  have 4: "invert_channels ?cfg = restrict_invert (invert_channels cfg)" by simp
  show ?thesis
    by (simp only: try_body_unfold 1 2 3 4 save_channels_restrict[OF h])
qed

lemma process_entry_restrict:
  "process_entry (cfg\<lparr>invert_channels := restrict_invert (invert_channels cfg)\<rparr>) fn w =
   process_entry cfg fn w"
  by (simp only: process_entry_unfold try_body_restrict)

lemma process_entries_restrict:
  "process_entries (cfg\<lparr>invert_channels := restrict_invert (invert_channels cfg)\<rparr>) names w =
   process_entries cfg names w"
proof (induction names arbitrary: w)
  case Nil
  then show ?case by simp
next
  case (Cons fn names)
  show ?case by (simp only: process_entries_step process_entry_restrict Cons.IH)
qed

text \<open>
  Claim C9. Entries of the invert set other than \<open>r\<close>, \<open>g\<close>, \<open>b\<close> and \<open>a\<close>
  are not an error and change nothing: a run with an invert set and the run with that set
  restricted to the four letters end with the same result, the same files and the same
  console.
\<close>

theorem foreign_invert_entries_ignored:
  "process_texture_channels (cfg\<lparr>invert_channels := restrict_invert (invert_channels cfg)\<rparr>) w =
   process_texture_channels cfg w"
proof -
  let ?cfg = "cfg\<lparr>invert_channels := restrict_invert (invert_channels cfg)\<rparr>"
  have 1: "ensure_output_folder ?cfg fs = ensure_output_folder cfg fs" for fs
    by (simp add: ensure_output_folder_def)
  have 2: "input_folder ?cfg = input_folder cfg" by simp
  show ?thesis
    by (simp only: process_texture_channels_unfold 1 2 process_entries_restrict)
qed

theorem foreign_invert_entries_ignored_witness:
  "restrict_invert (Some [''x'', ''r'', ''red'', ''R'']) = Some [''r''] \<and>
   process_texture_channels (example_config\<lparr>invert_channels := Some [''x'', ''r'', ''red'', ''R'']\<rparr>)
     example_world =
   process_texture_channels example_config example_world"
proof -
  have a: "restrict_invert (Some [''x'', ''r'', ''red'', ''R'']) = Some [''r'']"
    by (simp add: restrict_invert_def)
  have b: "example_config\<lparr>invert_channels := Some [''r'']\<rparr> = example_config"
    by (simp add: example_config_def)
  from foreign_invert_entries_ignored
    [of "example_config\<lparr>invert_channels := Some [''x'', ''r'', ''red'', ''R'']\<rparr>" example_world]
  show ?thesis by (simp add: a b)
qed

subsection \<open>Startup\<close>

lemma mkdir_lookup:
  assumes "mkdir p fs = Inr fs'"
  shows "lookup fs p = None \<and> lookup fs (butlast p) = Some Dir \<and>
         (\<forall>q. lookup fs' q = (if q = p then Some Dir else lookup fs q))"
proof -
  from assms have n: "lookup fs p = None"
    by (auto simp: mkdir_def path_exists_def split: if_splits)
  then have "p \<noteq> []" by (auto simp: lookup_def)
  moreover from assms n have "lookup fs (butlast p) = Some Dir"
    and "fs' = AList.update p Dir fs"
    by (auto simp: mkdir_def path_exists_def split: if_splits option.splits node.splits)
  ultimately show ?thesis using n by (simp add: lookup_update)
qed

lemma makedirs_lookup:
  "makedirs p fs = Inr fs' \<Longrightarrow>
   lookup fs' q = lookup fs q \<or> (lookup fs q = None \<and> lookup fs' q = Some Dir \<and> prefix q p)"
proof (induction p fs arbitrary: fs' rule: makedirs.induct)
  case (1 p fs)
  show ?case
  proof (cases "p \<noteq> [] \<and> \<not> path_exists fs (butlast p)")
    case True
    with "1.prems" obtain fs1 where fs1: "makedirs (butlast p) fs = Inr fs1"
      and mk: "mkdir p fs1 = Inr fs'"
      by (subst (asm) makedirs.simps) (auto split: sum.splits)
    from "1.IH"[OF True fs1] have ih:
      "lookup fs1 q = lookup fs q \<or>
       (lookup fs q = None \<and> lookup fs1 q = Some Dir \<and> prefix q (butlast p))" .
    from mkdir_lookup[OF mk] have m: "lookup fs1 p = None"
      "lookup fs' q = (if q = p then Some Dir else lookup fs1 q)" by auto
    have pb: "prefix q (butlast p) \<Longrightarrow> prefix q p"
      by (metis prefix_order.trans prefixeq_butlast)
    show ?thesis
    proof (cases "q = p")
      case True
      with ih m pb show ?thesis by auto
    next
      case False
      with ih m pb show ?thesis by auto
    qed
  next
    case False
    with "1.prems" have "mkdir p fs = Inr fs'"
      by (subst (asm) makedirs.simps) simp
    from mkdir_lookup[OF this] show ?thesis by auto
  qed
qed

lemma ensure_output_folder_lookup:
  assumes "ensure_output_folder cfg fs = Inr fs1"
  shows "lookup fs1 q = lookup fs q \<or>
         (lookup fs q = None \<and> lookup fs1 q = Some Dir \<and> prefix q (output_folder cfg))"
  using assms makedirs_lookup[of "output_folder cfg" fs fs1 q]
  by (auto simp: ensure_output_folder_def split: if_splits)




subsection \<open>The entries as functions on trees\<close>

lemma lookup_update_fun:
  "p \<noteq> [] \<Longrightarrow> lookup (AList.update p n fs) = (lookup fs)(p \<mapsto> n)"
  by (rule ext) (simp add: lookup_update)

lemma try_body_undecodable:
  "decode (lookup (disk w)) (input_folder cfg @ [fn]) = None \<Longrightarrow>
   \<exists>e. try_body cfg fn w = (Inl e, w)"
  by (auto simp: try_body_unfold Image_open_def decode_def
      split: option.splits node.splits content.splits sum.splits)

lemma decode_succeeds:
  "decode (lookup fs) p = Some rgba \<Longrightarrow>
   \<exists>img. Image_open fs p = Inr img \<and> normalised img = Inr rgba"
  by (auto simp: Image_open_def decode_def
      split: option.splits node.splits content.splits sum.splits)

lemma save_channels_map:
  assumes "\<forall>(s, i) \<in> set ci. i < length chans \<and> s \<in> fst ` set channel_info"
  shows "lookup (disk (snd (save_channels ivs fn od chans ci w))) =
           (if lookup (disk w) od = Some Dir
            then write_all (lookup (disk w)) (targets ivs fn od chans ci)
            else lookup (disk w))"
  using assms
proof (induction ci arbitrary: w)
  case Nil
  then show ?case by (simp add: targets_def)
next
  case (Cons a ci)
  obtain s i where a: "a = (s, i)" by (cases a)
  from Cons.prems a have i: "i < length chans" and s: "s \<in> fst ` set channel_info"
    and rest: "\<forall>(s, i) \<in> set ci. i < length chans \<and> s \<in> fst ` set channel_info"
    by auto
  let ?t = "od @ [output_filename fn s]"
  let ?c = "Encoded PNG (emitted ivs s (chans ! i))"
  have tg: "targets ivs fn od chans (a # ci) = (?t, ?c) # targets ivs fn od chans ci"
    by (simp add: targets_def a)
  show ?case
  proof (cases "lookup (disk w) od = Some Dir \<and> lookup (disk w) ?t \<noteq> Some Dir")
    case True
    define w1 where "w1 = w\<lparr>disk := AList.update ?t (File ?c) (disk w),
                             console := console w @ [Saved ?t]\<rparr>"
    have sv: "save (emitted ivs s (chans ! i)) ?t (disk w) =
                Inr (AList.update ?t (File ?c) (disk w))"
      using True by (simp add: save_output[OF s])
    have step: "save_channels ivs fn od chans (a # ci) w = save_channels ivs fn od chans ci w1"
      using i sv by (simp add: a w1_def Let_def)
    have l1: "lookup (disk w1) = (lookup (disk w))(?t \<mapsto> File ?c)"
      by (simp add: w1_def lookup_update_fun)
    have od1: "lookup (disk w1) od = Some Dir" using True by (simp add: l1)
    show ?thesis
      unfolding step Cons.IH[OF rest] tg using True od1 by (simp add: l1)
  next
    case False
    then have "\<exists>e. save (emitted ivs s (chans ! i)) ?t (disk w) = Inl e"
      by (auto simp: save_output[OF s] split: option.splits node.splits)
    then obtain e where "save (emitted ivs s (chans ! i)) ?t (disk w) = Inl e" by blast
    then have "save_channels ivs fn od chans (a # ci) w = (Inl e, w)"
      using i by (simp add: a)
    then show ?thesis using False by (auto simp: tg)
  qed
qed

lemma makedirs_child:
  assumes "path_exists fs d"
  shows "makedirs (d @ [x]) fs = mkdir (d @ [x]) fs"
  using assms by (subst makedirs.simps) simp

lemma mkdir_child:
  assumes "lookup fs (d @ [x]) = None"
  shows "mkdir (d @ [x]) fs =
           (case lookup fs d of
              None \<Rightarrow> Inl FileNotFoundError
            | Some (File c) \<Rightarrow> Inl NotADirectoryError
            | Some Dir \<Rightarrow> Inr (AList.update (d @ [x]) Dir fs))"
  using assms by (simp add: mkdir_def path_exists_def)

lemma try_body_map:
  assumes "create_subfolders cfg" and "lookup (disk w) (output_folder cfg) \<noteq> None"
  shows "lookup (disk (snd (try_body cfg fn w))) =
     (case decode (lookup (disk w)) (input_folder cfg @ [fn]) of
             None \<Rightarrow> lookup (disk w)
           | Some img \<Rightarrow>
               (let od = output_folder cfg @ [base_name fn]
                in if lookup (disk w) od = None then
                     (if lookup (disk w) (output_folder cfg) = Some Dir
                      then write_all ((lookup (disk w))(od \<mapsto> Dir)) (outputs cfg fn img)
                      else lookup (disk w))
                   else if lookup (disk w) od = Some Dir
                   then write_all (lookup (disk w)) (outputs cfg fn img)
                   else lookup (disk w)))"
proof (cases "decode (lookup (disk w)) (input_folder cfg @ [fn])")
  case None
  from try_body_undecodable[OF this] obtain e where
    "try_body cfg fn w = (Inl e, w)" by blast
  then show ?thesis using None by simp
next
  case (Some rgba)
  from decode_succeeds[OF this] obtain img where
    io: "Image_open (disk w) (input_folder cfg @ [fn]) = Inr img"
    and nz: "normalised img = Inr rgba"
    by blast
  let ?od = "output_folder cfg @ [base_name fn]"
  let ?chans = "split_bands rgba"
  have odo: "output_dir_of cfg fn = ?od" using assms(1) by (simp add: output_dir_of_def)
  have ex: "path_exists (disk w) (output_folder cfg)"
    using assms(2) by (simp add: path_exists_def)
  have disk_of: "lookup (disk (snd (try_body cfg fn w))) =
      (if lookup fs1 ?od = Some Dir then write_all (lookup fs1) (outputs cfg fn rgba)
       else lookup fs1)"
    if "ensure_output_dir cfg fn (disk w) = Inr fs1" for fs1
  proof -
    have "disk (snd (try_body cfg fn w)) =
        disk (snd (save_channels (invert_channels cfg) fn ?od ?chans channel_info
                     (w\<lparr>disk := fs1\<rparr>)))"
      using io nz that
      by (simp add: try_body_unfold odo split: prod.splits sum.splits)
    then show ?thesis
      by (simp add: save_channels_map[OF channel_info_ok[OF nz]] outputs_def)
  qed
  show ?thesis
  proof (cases "lookup (disk w) ?od")
    case None
    then have en: "ensure_output_dir cfg fn (disk w) = mkdir ?od (disk w)"
      using assms(1) ex by (simp add: ensure_output_dir_def path_exists_def makedirs_child)
    show ?thesis
    proof (cases "lookup (disk w) (output_folder cfg) = Some Dir")
      case True
      then have "ensure_output_dir cfg fn (disk w) = Inr (AList.update ?od Dir (disk w))"
        by (simp add: en mkdir_child[OF None])
      from disk_of[OF this] show ?thesis
        using Some None True by (simp add: lookup_update_fun)
    next
      case False
      then have "\<exists>e. ensure_output_dir cfg fn (disk w) = Inl e"
        using assms(2) by (auto simp: en mkdir_child[OF None] split: option.splits node.splits)
      then obtain e where "ensure_output_dir cfg fn (disk w) = Inl e" by blast
      from try_body_dir_fails[OF io nz this] show ?thesis
        using Some None False by simp
    qed
  next
    case (Some n)
    then have "ensure_output_dir cfg fn (disk w) = Inr (disk w)"
      using assms(1) by (simp add: ensure_output_dir_def path_exists_def)
    from disk_of[OF this] show ?thesis
      using \<open>decode (lookup (disk w)) (input_folder cfg @ [fn]) = Some rgba\<close> Some by simp
  qed
qed

lemma process_entry_map:
  assumes "create_subfolders cfg" and "lookup (disk w) (output_folder cfg) \<noteq> None"
  shows "lookup (disk (snd (process_entry cfg fn w))) = entry_map cfg fn (lookup (disk w))"
proof (cases "eligible fn")
  case True
  have "disk (snd (process_entry cfg fn w)) = disk (snd (try_body cfg fn w))"
    using True by (simp add: process_entry_unfold split: prod.splits sum.splits)
  then show ?thesis
    using True by (simp add: try_body_map[OF assms] entry_map_def)
next
  case False
  then show ?thesis by (simp add: process_entry_skips entry_map_def)
qed

subsection \<open>Two runs on trees that differ by earlier output\<close>

lemma write_all_sim:
  assumes "\<forall>t \<in> fst ` set ts. (a t = Some Dir \<longleftrightarrow> b t = Some Dir)"
  shows "(write_all a ts q = a q \<and> write_all b ts q = b q) \<or>
         (write_all a ts q = write_all b ts q \<and> q \<in> fst ` set ts \<and>
          (\<exists>c. write_all a ts q = Some (File c)) \<and> a q \<noteq> Some Dir)"
  using assms
proof (induction ts arbitrary: a b)
  case Nil
  then show ?case by simp
next
  case (Cons tc ts)
  obtain t c where tc: "tc = (t, c)" by (cases tc)
  show ?case
  proof (cases "a t = Some Dir")
    case True
    with Cons.prems have "b t = Some Dir" by (simp add: tc)
    with True show ?thesis by (simp add: tc)
  next
    case False
    with Cons.prems have nb: "b t \<noteq> Some Dir" by (simp add: tc)
    let ?a = "a(t \<mapsto> File c)" and ?b = "b(t \<mapsto> File c)"
    have "\<forall>t' \<in> fst ` set ts. (?a t' = Some Dir \<longleftrightarrow> ?b t' = Some Dir)"
      using Cons.prems by (auto simp: tc)
    from Cons.IH[OF this] have ih:
      "(write_all ?a ts q = ?a q \<and> write_all ?b ts q = ?b q) \<or>
       (write_all ?a ts q = write_all ?b ts q \<and> q \<in> fst ` set ts \<and>
        (\<exists>c. write_all ?a ts q = Some (File c)) \<and> ?a q \<noteq> Some Dir)" .
    have w: "write_all a (tc # ts) = write_all ?a ts" "write_all b (tc # ts) = write_all ?b ts"
      using False nb by (simp_all add: tc)
    show ?thesis
    proof (cases "q = t")
      case True
      with ih False show ?thesis unfolding w by (auto simp: tc)
    next
      case False
      with ih show ?thesis unfolding w by (auto simp: tc)
    qed
  qed
qed

lemma outputs_paths:
  "t \<in> fst ` set (outputs cfg fn img) \<Longrightarrow> \<exists>y. t = output_folder cfg @ [base_name fn, y]"
  by (auto simp: outputs_def targets_def)

lemma ahead_refl: "ahead cfg a a"
  by (simp add: ahead_def)

lemma ahead_at_dest: "ahead cfg a b \<Longrightarrow> b (output_folder cfg) = a (output_folder cfg)"
  unfolding ahead_def by (drule spec[of _ "output_folder cfg"]) auto

lemma ahead_at_sub:
  assumes "ahead cfg a b"
  shows "b (output_folder cfg @ [x]) = a (output_folder cfg @ [x]) \<or>
         (a (output_folder cfg @ [x]) = None \<and> b (output_folder cfg @ [x]) = Some Dir \<and>
          a (output_folder cfg) = Some Dir)"
  using assms unfolding ahead_def by (drule_tac x = "output_folder cfg @ [x]" in spec) auto

lemma ahead_at_out:
  assumes "ahead cfg a b"
  shows "a (output_folder cfg @ [x, y]) = Some Dir \<longleftrightarrow> b (output_folder cfg @ [x, y]) = Some Dir"
  using assms unfolding ahead_def by (drule_tac x = "output_folder cfg @ [x, y]" in spec) auto

lemma entry_map_sim:
  assumes "ahead cfg a b"
    and "decode b (input_folder cfg @ [fn]) = decode a (input_folder cfg @ [fn])"
  shows "(entry_map cfg fn a q = a q \<and> entry_map cfg fn b q = b q) \<or>
         (entry_map cfg fn a q = entry_map cfg fn b q \<and>
          ((\<exists>x. q = output_folder cfg @ [x]) \<and> entry_map cfg fn a q = Some Dir \<and>
             a q = None \<and> a (output_folder cfg) = Some Dir \<or>
           (\<exists>x y. q = output_folder cfg @ [x, y]) \<and>
             (\<exists>c. entry_map cfg fn a q = Some (File c)) \<and> a q \<noteq> Some Dir))"
proof (cases "eligible fn")
  case False
  then show ?thesis by (simp add: entry_map_def)
next
  case True
  let ?dest = "output_folder cfg"
  let ?od = "?dest @ [base_name fn]"
  note dec = assms(2)
  show ?thesis
  proof (cases "decode a (input_folder cfg @ [fn])")
    case None
    with dec True show ?thesis by (simp add: entry_map_def)
  next
    case (Some img)
    let ?outs = "outputs cfg fn img"
    have dst: "b ?dest = a ?dest" using assms(1) by (rule ahead_at_dest)
    have sub: "b ?od = a ?od \<or> (a ?od = None \<and> b ?od = Some Dir \<and> a ?dest = Some Dir)"
      using assms(1) by (rule ahead_at_sub)
    have ea: "entry_map cfg fn a =
        (if a ?od = None then (if a ?dest = Some Dir then write_all (a(?od \<mapsto> Dir)) ?outs else a)
         else if a ?od = Some Dir then write_all a ?outs else a)"
      using True Some by (simp add: entry_map_def Let_def)
    have eb: "entry_map cfg fn b =
        (if b ?od = None then (if b ?dest = Some Dir then write_all (b(?od \<mapsto> Dir)) ?outs else b)
         else if b ?od = Some Dir then write_all b ?outs else b)"
      using True Some dec by (simp add: entry_map_def Let_def)
    have compat: "\<forall>t \<in> fst ` set ?outs. (a' t = Some Dir \<longleftrightarrow> b' t = Some Dir)"
      if "\<And>t. t \<noteq> ?od \<Longrightarrow> a' t = a t" "\<And>t. t \<noteq> ?od \<Longrightarrow> b' t = b t" for a' b'
    proof
      fix t assume "t \<in> fst ` set ?outs"
      from outputs_paths[OF this] obtain y where t: "t = ?dest @ [base_name fn, y]" by blast
      then have "t \<noteq> ?od" by simp
      with that have "a' t = a t" "b' t = b t" by auto
      with ahead_at_out[OF assms(1), of "base_name fn" y] t
      show "a' t = Some Dir \<longleftrightarrow> b' t = Some Dir" by simp
    qed
    have notod: "q \<in> fst ` set ?outs \<Longrightarrow> q \<noteq> ?od \<and> (\<exists>x y. q = ?dest @ [x, y])"
      using outputs_paths[of q cfg fn img] by auto
    consider (make) "a ?od = None" "a ?dest = Some Dir"
      | (nodest) "a ?od = None" "a ?dest \<noteq> Some Dir"
      | (isdir) "a ?od = Some Dir"
      | (isfile) c where "a ?od = Some (File c)"
      by (cases "a ?od") (auto, metis node.exhaust)
    then show ?thesis
    proof cases
      case make
      let ?a = "a(?od \<mapsto> Dir)"
      define b1 where "b1 = (if b ?od = None then b(?od \<mapsto> Dir) else b)"
      have eb1: "entry_map cfg fn b = write_all b1 ?outs"
        using sub make dst by (auto simp: eb b1_def)
      have ea1: "entry_map cfg fn a = write_all ?a ?outs"
        using make by (simp add: ea)
      have b1od: "b1 ?od = Some Dir" using sub make by (auto simp: b1_def)
      have b1o: "t \<noteq> ?od \<Longrightarrow> b1 t = b t" for t by (simp add: b1_def)
      have "\<forall>t \<in> fst ` set ?outs. (?a t = Some Dir \<longleftrightarrow> b1 t = Some Dir)"
        by (rule compat) (simp_all add: b1o)
      from write_all_sim[OF this, of q] have ws:
        "(write_all ?a ?outs q = ?a q \<and> write_all b1 ?outs q = b1 q) \<or>
         (write_all ?a ?outs q = write_all b1 ?outs q \<and> q \<in> fst ` set ?outs \<and>
          (\<exists>c. write_all ?a ?outs q = Some (File c)) \<and> ?a q \<noteq> Some Dir)" .
      show ?thesis
      proof (cases "q = ?od")
        case True
        with ws notod make b1od show ?thesis unfolding ea1 eb1 by auto
      next
        case False
        with ws notod b1o[OF False] show ?thesis unfolding ea1 eb1 by auto
      qed
    next
      case nodest
      with sub dst show ?thesis by (auto simp: ea eb)
    next
      case isdir
      with sub have bd: "b ?od = Some Dir" by auto
      have ea1: "entry_map cfg fn a = write_all a ?outs" using isdir by (simp add: ea)
      have eb1: "entry_map cfg fn b = write_all b ?outs" using bd by (simp add: eb)
      have "\<forall>t \<in> fst ` set ?outs. (a t = Some Dir \<longleftrightarrow> b t = Some Dir)"
        by (rule compat) simp_all
      from write_all_sim[OF this, of q] notod show ?thesis unfolding ea1 eb1 by auto
    next
      case isfile
      with sub have "b ?od = Some (File c)" by auto
      with isfile show ?thesis by (simp add: ea eb)
    qed
  qed
qed


lemma entry_map_dest: "entry_map cfg fn a (output_folder cfg) = a (output_folder cfg)"
  using entry_map_sim[OF ahead_refl refl, where cfg = cfg and a = a and fn = fn
      and q = "output_folder cfg"]
  by auto

lemma entry_map_ahead: "ahead cfg a (entry_map cfg fn a)"
  unfolding ahead_def
proof
  fix q
  from entry_map_sim[OF ahead_refl refl, where cfg = cfg and a = a and fn = fn and q = q]
  show "entry_map cfg fn a q = a q \<or>
        (a q = None \<and> entry_map cfg fn a q = Some Dir \<and> (\<exists>x. q = output_folder cfg @ [x]) \<and>
         a (output_folder cfg) = Some Dir) \<or>
        (a q \<noteq> Some Dir \<and> (\<exists>c. entry_map cfg fn a q = Some (File c)) \<and>
         (\<exists>x y. q = output_folder cfg @ [x, y]))"
    by auto
qed

lemma ahead_trans:
  assumes "ahead cfg a b" and "ahead cfg b c"
  shows "ahead cfg a c"
  unfolding ahead_def
proof
  fix q
  let ?dest = "output_folder cfg"
  have d: "b ?dest = a ?dest" using assms(1) by (rule ahead_at_dest)
  from assms(1) have ab: "b q = a q \<or>
        (a q = None \<and> b q = Some Dir \<and> (\<exists>x. q = ?dest @ [x]) \<and> a ?dest = Some Dir) \<or>
        (a q \<noteq> Some Dir \<and> (\<exists>c. b q = Some (File c)) \<and> (\<exists>x y. q = ?dest @ [x, y]))"
    by (simp add: ahead_def)
  from assms(2) have bc: "c q = b q \<or>
        (b q = None \<and> c q = Some Dir \<and> (\<exists>x. q = ?dest @ [x]) \<and> b ?dest = Some Dir) \<or>
        (b q \<noteq> Some Dir \<and> (\<exists>k. c q = Some (File k)) \<and> (\<exists>x y. q = ?dest @ [x, y]))"
    by (simp add: ahead_def)
  from ab bc d
  show "c q = a q \<or>
        (a q = None \<and> c q = Some Dir \<and> (\<exists>x. q = ?dest @ [x]) \<and> a ?dest = Some Dir) \<or>
        (a q \<noteq> Some Dir \<and> (\<exists>k. c q = Some (File k)) \<and> (\<exists>x y. q = ?dest @ [x, y]))"
    by (elim disjE conjE exE) auto
qed

lemma fold_entry_map_ahead: "ahead cfg a (fold (entry_map cfg) ns a)"
proof (induction ns arbitrary: a)
  case Nil
  show ?case by (simp add: ahead_refl)
next
  case (Cons fn ns)
  have "ahead cfg a (entry_map cfg fn a)" by (rule entry_map_ahead)
  moreover have "ahead cfg (entry_map cfg fn a) (fold (entry_map cfg) ns (entry_map cfg fn a))"
    by (rule Cons.IH)
  ultimately show ?case by (simp add: ahead_trans)
qed

lemma between_ahead:
  assumes "ahead cfg a f" and "\<forall>q. b q = f q \<or> b q = a q"
  shows "ahead cfg a b"
  unfolding ahead_def
proof
  fix q
  from assms(2) have "b q = f q \<or> b q = a q" by blast
  moreover from assms(1) have "f q = a q \<or>
        (a q = None \<and> f q = Some Dir \<and> (\<exists>x. q = output_folder cfg @ [x]) \<and>
         a (output_folder cfg) = Some Dir) \<or>
        (a q \<noteq> Some Dir \<and> (\<exists>c. f q = Some (File c)) \<and>
         (\<exists>x y. q = output_folder cfg @ [x, y]))"
    by (simp add: ahead_def)
  ultimately show "b q = a q \<or>
        (a q = None \<and> b q = Some Dir \<and> (\<exists>x. q = output_folder cfg @ [x]) \<and>
         a (output_folder cfg) = Some Dir) \<or>
        (a q \<noteq> Some Dir \<and> (\<exists>c. b q = Some (File c)) \<and>
         (\<exists>x y. q = output_folder cfg @ [x, y]))"
    by auto
qed

text \<open>
  The entries of a run started from \<open>a0\<close> end in \<open>f\<close>, and the source files
  decode in \<open>f\<close> as they do in \<open>a0\<close>. Some way into that run the tree is
  \<open>a\<close>. A second run that is as far, and holds at each path either what the first run
  holds there, or what \<open>f\<close> holds where the first run has not written yet, ends in
  \<open>f\<close> as well.
\<close>

lemma rerun_reaches_same_tree:
  assumes "\<forall>n. decode f (input_folder cfg @ [n]) = decode a0 (input_folder cfg @ [n])"
    and "f = fold (entry_map cfg) ns a"
    and "\<forall>q. b q = a q \<or> (b q = f q \<and> a q = a0 q)"
  shows "fold (entry_map cfg) ns b = f"
  using assms(2,3)
proof (induction ns arbitrary: a b)
  case Nil
  then show ?case by (auto simp: fun_eq_iff)
next
  case (Cons fn ns)
  let ?a = "entry_map cfg fn a" and ?b = "entry_map cfg fn b"
  let ?p = "input_folder cfg @ [fn]"
  have "ahead cfg a f" unfolding Cons.prems(1) by (rule fold_entry_map_ahead)
  moreover have "\<forall>q. b q = f q \<or> b q = a q" using Cons.prems(2) by blast
  ultimately have ab: "ahead cfg a b" by (rule between_ahead)
  have "b ?p = a ?p \<or> (b ?p = f ?p \<and> a ?p = a0 ?p)" using Cons.prems(2) by blast
  then have dec: "decode b ?p = decode a ?p"
  proof
    assume "b ?p = a ?p"
    then show ?thesis by (simp add: decode_def)
  next
    assume "b ?p = f ?p \<and> a ?p = a0 ?p"
    then have "decode b ?p = decode f ?p" "decode a ?p = decode a0 ?p"
      by (simp_all add: decode_def)
    with assms(1) show ?thesis by simp
  qed
  have f: "f = fold (entry_map cfg) ns ?a" using Cons.prems(1) by simp
  have "?b q = ?a q \<or> (?b q = f q \<and> ?a q = a0 q)" for q
    using entry_map_sim[OF ab dec, where q = q] Cons.prems(2) by auto
  then have "fold (entry_map cfg) ns ?b = f"
    by (intro Cons.IH[OF f]) blast
  then show ?case by simp
qed

lemma fold_entry_map_undecodable:
  assumes "\<forall>n \<in> set ns. decode a (input_folder cfg @ [n]) = None"
  shows "fold (entry_map cfg) ns a = a"
  using assms
proof (induction ns)
  case Nil
  show ?case by simp
next
  case (Cons n ns)
  then have "entry_map cfg n a = a" by (simp add: entry_map_def)
  with Cons show ?case by simp
qed

lemma process_entries_map:
  assumes "create_subfolders cfg" and "lookup (disk w) (output_folder cfg) \<noteq> None"
  shows "lookup (disk (snd (process_entries cfg ns w))) = fold (entry_map cfg) ns (lookup (disk w))"
  using assms(2)
proof (induction ns arbitrary: w)
  case Nil
  show ?case by simp
next
  case (Cons fn ns)
  let ?w = "snd (process_entry cfg fn w)"
  have m: "lookup (disk ?w) = entry_map cfg fn (lookup (disk w))"
    using assms(1) Cons.prems by (rule process_entry_map)
  then have "lookup (disk ?w) (output_folder cfg) \<noteq> None"
    using Cons.prems by (simp add: entry_map_dest)
  from Cons.IH[OF this] show ?case unfolding process_entries_step by (simp add: m)
qed

subsection \<open>The listing of the second run\<close>

lemma grows_refl: "grows fs fs"
  by (simp add: grows_def)

lemma grows_trans:
  assumes "grows a b" and "grows b c"
  shows "grows a c"
proof -
  from assms(1) obtain n1 where n1: "map fst b = map fst a @ n1" "set n1 \<inter> set (map fst a) = {}"
    by (auto simp: grows_def)
  from assms(2) obtain n2 where n2: "map fst c = map fst b @ n2" "set n2 \<inter> set (map fst b) = {}"
    by (auto simp: grows_def)
  have "map fst c = map fst a @ (n1 @ n2)" using n1(1) n2(1) by simp
  moreover have "set (n1 @ n2) \<inter> set (map fst a) = {}"
    using n1 n2 by auto
  ultimately show ?thesis unfolding grows_def by blast
qed

lemma grows_update: "grows fs (AList.update k v fs)"
  by (auto simp: grows_def AList.update_keys)

lemma save_grows: "save img p fs = Inr fs' \<Longrightarrow> grows fs fs'"
  by (auto simp: save_def grows_update split: if_splits option.splits node.splits)

lemma mkdir_grows: "mkdir p fs = Inr fs' \<Longrightarrow> grows fs fs'"
  by (auto simp: mkdir_def grows_update split: if_splits option.splits node.splits)

lemma makedirs_grows: "makedirs p fs = Inr fs' \<Longrightarrow> grows fs fs'"
proof (induction p fs arbitrary: fs' rule: makedirs.induct)
  case (1 p fs)
  show ?case
  proof (cases "p \<noteq> [] \<and> \<not> path_exists fs (butlast p)")
    case True
    with "1.prems" obtain fs1 where fs1: "makedirs (butlast p) fs = Inr fs1"
      and mk: "mkdir p fs1 = Inr fs'"
      by (subst (asm) makedirs.simps) (auto split: sum.splits)
    from "1.IH"[OF True fs1] mkdir_grows[OF mk] show ?thesis by (rule grows_trans)
  next
    case False
    with "1.prems" have "mkdir p fs = Inr fs'"
      by (subst (asm) makedirs.simps) simp
    then show ?thesis by (rule mkdir_grows)
  qed
qed

lemma ensure_output_dir_grows: "ensure_output_dir cfg fn fs = Inr fs' \<Longrightarrow> grows fs fs'"
  by (auto simp: ensure_output_dir_def Let_def grows_refl makedirs_grows split: if_splits)

lemma save_channels_grows:
  "grows (disk w) (disk (snd (save_channels ivs fn od chans ci w)))"
proof (induction ci arbitrary: w)
  case Nil
  show ?case by (simp add: grows_refl)
next
  case (Cons a ci)
  obtain s i where a: "a = (s, i)" by (cases a)
  show ?case
  proof (cases "i < length chans")
    case True
    let ?t = "od @ [output_filename fn s]"
    show ?thesis
    proof (cases "save (emitted ivs s (chans ! i)) ?t (disk w)")
      case (Inl e)
      with True show ?thesis by (simp add: a Let_def grows_refl)
    next
      case (Inr fs')
      let ?w1 = "w\<lparr>disk := fs', console := console w @ [Saved ?t]\<rparr>"
      have "save_channels ivs fn od chans (a # ci) w = save_channels ivs fn od chans ci ?w1"
        using True Inr by (simp add: a Let_def)
      moreover have "grows (disk w) (disk ?w1)" using save_grows[OF Inr] by simp
      moreover have "grows (disk ?w1) (disk (snd (save_channels ivs fn od chans ci ?w1)))"
        by (rule Cons.IH)
      ultimately show ?thesis by (simp only: grows_trans)
    qed
  next
    case False
    then have "save_channels ivs fn od chans (a # ci) w = save_channels ivs fn od chans ci w"
      by (simp add: a)
    then show ?thesis using Cons.IH[of w] by simp
  qed
qed

lemma try_body_grows: "grows (disk w) (disk (snd (try_body cfg fn w)))"
proof (cases "Image_open (disk w) (input_folder cfg @ [fn])")
  case (Inl e)
  then show ?thesis by (simp add: try_body_decode_fails grows_refl)
next
  case (Inr img)
  show ?thesis
  proof (cases "normalised img")
    case (Inl e)
    with Inr show ?thesis by (simp add: try_body_convert_fails grows_refl)
  next
    case rgba: (Inr rgba)
    show ?thesis
    proof (cases "ensure_output_dir cfg fn (disk w)")
      case (Inl e)
      with Inr rgba show ?thesis by (simp add: try_body_dir_fails grows_refl)
    next
      case fs1: (Inr fs1)
      let ?sc = "save_channels (invert_channels cfg) fn (output_dir_of cfg fn)
                   (split_bands rgba) channel_info (w\<lparr>disk := fs1\<rparr>)"
      have "disk (snd (try_body cfg fn w)) = disk (snd ?sc)"
        using Inr rgba fs1 by (simp add: try_body_unfold split: prod.splits sum.splits)
      moreover have "grows (disk (w\<lparr>disk := fs1\<rparr>)) (disk (snd ?sc))"
        by (rule save_channels_grows)
      moreover have "grows (disk w) fs1" using fs1 by (rule ensure_output_dir_grows)
      ultimately show ?thesis using grows_trans by fastforce
    qed
  qed
qed

lemma process_entry_grows: "grows (disk w) (disk (snd (process_entry cfg fn w)))"
proof (cases "eligible fn")
  case True
  then have "disk (snd (process_entry cfg fn w)) = disk (snd (try_body cfg fn w))"
    by (simp add: process_entry_unfold split: prod.splits sum.splits)
  then show ?thesis by (simp add: try_body_grows)
next
  case False
  then show ?thesis by (simp add: process_entry_skips grows_refl)
qed

lemma process_entries_grows: "grows (disk w) (disk (snd (process_entries cfg ns w)))"
proof (induction ns arbitrary: w)
  case Nil
  show ?case by (simp add: grows_refl)
next
  case (Cons fn ns)
  have "grows (disk w) (disk (snd (process_entry cfg fn w)))" by (rule process_entry_grows)
  moreover have "grows (disk (snd (process_entry cfg fn w)))
      (disk (snd (process_entries cfg ns (snd (process_entry cfg fn w)))))"
    by (rule Cons.IH)
  ultimately show ?case unfolding process_entries_step by (rule grows_trans)
qed

lemma listdir_keys:
  "listdir fs d =
     (case lookup fs d of
        None \<Rightarrow> Inl FileNotFoundError
      | Some (File c) \<Rightarrow> Inl NotADirectoryError
      | Some Dir \<Rightarrow> Inr (map last (filter (\<lambda>q. q \<noteq> [] \<and> butlast q = d) (map fst fs))))"
proof -
  have "map (last \<circ> fst) (filter (\<lambda>(q, n). q \<noteq> [] \<and> butlast q = d) fs) =
        map last (filter (\<lambda>q. q \<noteq> [] \<and> butlast q = d) (map fst fs))"
    by (induction fs) auto
  then show ?thesis by (simp add: listdir_def split: option.splits node.splits)
qed

lemma listdir_grows:
  assumes "grows fs fs'" and "listdir fs d = Inr names" and "lookup fs' d = Some Dir"
  shows "\<exists>extra. listdir fs' d = Inr (names @ extra) \<and>
           (\<forall>n \<in> set extra. lookup fs (d @ [n]) = None \<and> lookup fs' (d @ [n]) \<noteq> None)"
proof -
  let ?P = "\<lambda>q. q \<noteq> [] \<and> butlast q = d"
  from assms(1) obtain new where new: "map fst fs' = map fst fs @ new"
    "set new \<inter> set (map fst fs) = {}"
    by (auto simp: grows_def)
  from assms(2) have names: "names = map last (filter ?P (map fst fs))"
    by (auto simp: listdir_keys split: option.splits node.splits)
  have l: "listdir fs' d = Inr (names @ map last (filter ?P new))"
    using assms(3) by (simp add: listdir_keys new(1) names)
  have "lookup fs (d @ [n]) = None \<and> lookup fs' (d @ [n]) \<noteq> None"
    if "n \<in> set (map last (filter ?P new))" for n
  proof -
    from that obtain q where q: "q \<in> set new" "q \<noteq> []" "butlast q = d" "n = last q" by auto
    then have dq: "d @ [n] = q" by (metis append_butlast_last_id)
    from q(1) new(2) have "q \<notin> fst ` set fs" by auto
    then have "map_of fs q = None" by (simp add: map_of_eq_None_iff)
    moreover from q(1) new(1) have "q \<in> fst ` set fs'"
      by (metis Un_iff set_append set_map)
    then have "map_of fs' q \<noteq> None" by (simp add: map_of_eq_None_iff)
    ultimately show ?thesis using q(2) by (simp add: dq[symmetric] lookup_def del: dq)
  qed
  with l show ?thesis by blast
qed

subsection \<open>Running twice\<close>

lemma makedirs_made: "makedirs p fs = Inr fs' \<Longrightarrow> lookup fs' p = Some Dir"
proof -
  assume a: "makedirs p fs = Inr fs'"
  then have "\<exists>fs1. mkdir p fs1 = Inr fs'"
    by (subst (asm) makedirs.simps) (auto split: if_splits sum.splits)
  then obtain fs1 where "mkdir p fs1 = Inr fs'" by blast
  from mkdir_lookup[OF this] show ?thesis by simp
qed

lemma ensure_output_folder_exists:
  "ensure_output_folder cfg fs = Inr fs1 \<Longrightarrow> lookup fs1 (output_folder cfg) \<noteq> None"
  by (auto simp: ensure_output_folder_def path_exists_def dest: makedirs_made split: if_splits)

lemma ensure_output_folder_again:
  "lookup fs (output_folder cfg) \<noteq> None \<Longrightarrow> ensure_output_folder cfg fs = Inr fs"
  by (simp add: ensure_output_folder_def path_exists_def)

lemma run_inversion:
  assumes "process_texture_channels cfg w = (Inr v, w1)"
  shows "\<exists>fs0 names. ensure_output_folder cfg (disk w) = Inr fs0 \<and>
           listdir fs0 (input_folder cfg) = Inr names \<and>
           w1 = snd (process_entries cfg names (w\<lparr>disk := fs0\<rparr>))"
  using assms
  by (auto simp: process_texture_channels_unfold split: sum.splits prod.splits)

lemma save_overwrites:
  assumes "sfx \<in> fst ` set channel_info"
    and "lookup fs od = Some Dir"
    and "lookup fs (od @ [output_filename fn sfx]) = Some (File c)"
  shows "\<exists>fs'. save img (od @ [output_filename fn sfx]) fs = Inr fs' \<and>
               lookup fs' (od @ [output_filename fn sfx]) = Some (File (Encoded PNG img))"
  using assms(2,3) by (simp add: save_output[OF assms(1)] lookup_update)

lemma decode_file_only:
  assumes "\<forall>c. a p = Some (File c) \<longleftrightarrow> b p = Some (File c)"
  shows "decode a p = decode b p"
proof (cases "\<exists>c. a p = Some (File c)")
  case True
  then obtain c where ac: "a p = Some (File c)" by blast
  from assms have "a p = Some (File c) \<longleftrightarrow> b p = Some (File c)" by (rule spec)
  with ac have "b p = Some (File c)" by (simp only:)
  with ac show ?thesis by (simp add: decode_def)
next
  case False
  have "\<not> (\<exists>c. b p = Some (File c))"
  proof
    assume "\<exists>c. b p = Some (File c)"
    then obtain c where bc: "b p = Some (File c)" by blast
    from assms have "a p = Some (File c) \<longleftrightarrow> b p = Some (File c)" by (rule spec)
    with bc have "a p = Some (File c)" by (simp only:)
    with False show False by blast
  qed
  with False show ?thesis
    by (auto simp: decode_def split: option.splits node.splits)
qed

text \<open>
  A run that writes into subfolders leaves the files of its source folder alone, unless the
  source folder is one of these subfolders.
\<close>

lemma source_files_untouched:
  assumes "create_subfolders cfg"
    and "\<forall>x. input_folder cfg \<noteq> output_folder cfg @ [x]"
    and "process_texture_channels cfg w = (Inr PNone, w1)"
  shows "lookup (disk w1) (input_folder cfg @ [n]) = Some (File c) \<longleftrightarrow>
         lookup (disk w) (input_folder cfg @ [n]) = Some (File c)"
proof -
  let ?p = "input_folder cfg @ [n]"
  from run_inversion[OF assms(3)] obtain fs0 names where
    en: "ensure_output_folder cfg (disk w) = Inr fs0"
    and w1: "w1 = snd (process_entries cfg names (w\<lparr>disk := fs0\<rparr>))"
    by blast
  have d0: "lookup fs0 (output_folder cfg) \<noteq> None" using en by (rule ensure_output_folder_exists)
  have "lookup (disk w1) = fold (entry_map cfg) names (lookup fs0)"
    unfolding w1 using process_entries_map[OF assms(1), of "w\<lparr>disk := fs0\<rparr>" names] d0
    by simp
  then have ah: "ahead cfg (lookup fs0) (lookup (disk w1))"
    by (simp add: fold_entry_map_ahead)
  have "\<not> (\<exists>x y. ?p = output_folder cfg @ [x, y])"
  proof
    assume "\<exists>x y. ?p = output_folder cfg @ [x, y]"
    then obtain x y where "?p = (output_folder cfg @ [x]) @ [y]" by auto
    then have "input_folder cfg = output_folder cfg @ [x]" by (simp only: append1_eq_conv)
    with assms(2) show False by blast
  qed
  with ah have "lookup (disk w1) ?p = lookup fs0 ?p \<or>
                (lookup fs0 ?p = None \<and> lookup (disk w1) ?p = Some Dir)"
    unfolding ahead_def by (drule_tac x = ?p in spec) auto
  moreover have "lookup fs0 ?p = lookup (disk w) ?p \<or>
                 (lookup (disk w) ?p = None \<and> lookup fs0 ?p = Some Dir)"
    using ensure_output_folder_lookup[OF en, of ?p] by auto
  ultimately show ?thesis by auto
qed

text \<open>
  Claim C6. A run with \<open>create_subfolders\<close> is repeated, with the same configuration,
  on the world that the first run left. The inputs of the two runs are identical when the
  source folder holds the same files with the same contents before both, that is, when the
  first run has left the files of its source folder as they were. Then the second run ends
  normally as well, and leaves every path of the disk, so every output file, holding exactly
  what it held after the first run. A write over an existing file of the same name succeeds
  and replaces the contents. Here the contents of a file are its format and the image it
  encodes, and a directory is enumerated in a stable order, new entries last.
\<close>

theorem second_run_leaves_outputs_identical:
  assumes "create_subfolders cfg"
    and "process_texture_channels cfg w = (Inr PNone, w1)"
    and "\<forall>n c. lookup (disk w1) (input_folder cfg @ [n]) = Some (File c) \<longleftrightarrow>
               lookup (disk w) (input_folder cfg @ [n]) = Some (File c)"
  shows "(\<exists>w2. process_texture_channels cfg w1 = (Inr PNone, w2) \<and>
               (\<forall>q. lookup (disk w2) q = lookup (disk w1) q)) \<and>
         (\<forall>fs fn sfx img c.
            sfx \<in> fst ` set channel_info \<longrightarrow>
            lookup fs (output_dir_of cfg fn) = Some Dir \<longrightarrow>
            lookup fs (output_path cfg fn sfx) = Some (File c) \<longrightarrow>
            (\<exists>fs'. save img (output_path cfg fn sfx) fs = Inr fs' \<and>
                   lookup fs' (output_path cfg fn sfx) = Some (File (Encoded PNG img))))"
proof -
  let ?inp = "input_folder cfg" and ?dest = "output_folder cfg"
  from run_inversion[OF assms(2)] obtain fs0 names where
    en: "ensure_output_folder cfg (disk w) = Inr fs0"
    and ls: "listdir fs0 ?inp = Inr names"
    and w1: "w1 = snd (process_entries cfg names (w\<lparr>disk := fs0\<rparr>))"
    by blast
  have d0: "lookup fs0 ?dest \<noteq> None" using en by (rule ensure_output_folder_exists)
  have m1: "lookup (disk w1) = fold (entry_map cfg) names (lookup fs0)"
    unfolding w1 using process_entries_map[OF assms(1), of "w\<lparr>disk := fs0\<rparr>" names] d0
    by simp
  have ah: "ahead cfg (lookup fs0) (lookup (disk w1))"
    unfolding m1 by (rule fold_entry_map_ahead)
  have d1: "lookup (disk w1) ?dest \<noteq> None" using ahead_at_dest[OF ah] d0 by simp
  have i0: "lookup fs0 ?inp = Some Dir"
    using ls by (auto simp: listdir_def split: option.splits node.splits)
  have i1: "lookup (disk w1) ?inp = Some Dir"
    using ah i0 unfolding ahead_def by (drule_tac x = ?inp in spec) auto
  have same_in: "decode (lookup (disk w1)) (?inp @ [n]) = decode (lookup fs0) (?inp @ [n])" for n
  proof (rule decode_file_only, rule allI)
    fix c
    have "lookup fs0 (?inp @ [n]) = lookup (disk w) (?inp @ [n]) \<or>
          (lookup (disk w) (?inp @ [n]) = None \<and> lookup fs0 (?inp @ [n]) = Some Dir)"
      using ensure_output_folder_lookup[OF en, of "?inp @ [n]"] by auto
    with assms(3) show "lookup (disk w1) (?inp @ [n]) = Some (File c) \<longleftrightarrow>
                        lookup fs0 (?inp @ [n]) = Some (File c)"
      by auto
  qed
  have en2: "ensure_output_folder cfg (disk w1) = Inr (disk w1)"
    using d1 by (rule ensure_output_folder_again)
  have gr: "grows fs0 (disk w1)"
    unfolding w1 using process_entries_grows[of "w\<lparr>disk := fs0\<rparr>" cfg names] by simp
  from listdir_grows[OF gr ls i1] obtain extra where
    ls2: "listdir (disk w1) ?inp = Inr (names @ extra)"
    and ex: "\<forall>n \<in> set extra. lookup fs0 (?inp @ [n]) = None \<and> lookup (disk w1) (?inp @ [n]) \<noteq> None"
    by blast
  have und: "decode (lookup (disk w1)) (?inp @ [n]) = None" if "n \<in> set extra" for n
  proof -
    from ex that have "lookup fs0 (?inp @ [n]) = None" by auto
    then have "decode (lookup fs0) (?inp @ [n]) = None" by (simp add: decode_def)
    then show ?thesis by (simp add: same_in)
  qed
  define w2 where "w2 = snd (process_entries cfg (names @ extra) w1)"
  have run2: "process_texture_channels cfg w1 = (Inr PNone, w2)"
    using run_completes[OF en2 ls2] by (simp add: w2_def)
  have "lookup (disk w2) =
        fold (entry_map cfg) extra (fold (entry_map cfg) names (lookup (disk w1)))"
    unfolding w2_def using process_entries_map[OF assms(1) d1, of "names @ extra"] by simp
  also have "fold (entry_map cfg) names (lookup (disk w1)) = lookup (disk w1)"
  proof (rule rerun_reaches_same_tree[where a0 = "lookup fs0" and a = "lookup fs0"])
    show "\<forall>n. decode (lookup (disk w1)) (?inp @ [n]) = decode (lookup fs0) (?inp @ [n])"
      using same_in by blast
    show "lookup (disk w1) = fold (entry_map cfg) names (lookup fs0)" by (rule m1)
    show "\<forall>q. lookup (disk w1) q = lookup fs0 q \<or>
              (lookup (disk w1) q = lookup (disk w1) q \<and> lookup fs0 q = lookup fs0 q)"
      by simp
  qed
  also have "fold (entry_map cfg) extra (lookup (disk w1)) = lookup (disk w1)"
    by (rule fold_entry_map_undecodable) (simp add: und)
  finally have same: "lookup (disk w2) = lookup (disk w1)" .
  have over: "\<exists>fs'. save img (output_path cfg fn sfx) fs = Inr fs' \<and>
                 lookup fs' (output_path cfg fn sfx) = Some (File (Encoded PNG img))"
    if "sfx \<in> fst ` set channel_info" "lookup fs (output_dir_of cfg fn) = Some Dir"
      "lookup fs (output_path cfg fn sfx) = Some (File c)" for fs fn sfx img c
    using save_overwrites[OF that(1), of fs "output_dir_of cfg fn" fn c img] that(2,3)
    by (simp add: output_path_def)
  from run2 same over show ?thesis by auto
qed

theorem second_run_leaves_outputs_identical_witness:
  "create_subfolders same_folder_config \<and>
   process_texture_channels same_folder_config example_world =
     (Inr PNone, snd (process_texture_channels same_folder_config example_world)) \<and>
   saved_paths (console (snd (process_texture_channels same_folder_config example_world))) =
     [[''tex'', ''wall_rmo'', ''wall_rmo_r.png''], [''tex'', ''wall_rmo'', ''wall_rmo_g.png''],
      [''tex'', ''wall_rmo'', ''wall_rmo_b.png''], [''tex'', ''wall_rmo'', ''wall_rmo_a.png'']] \<and>
   (\<exists>w2. process_texture_channels same_folder_config
            (snd (process_texture_channels same_folder_config example_world)) = (Inr PNone, w2) \<and>
         (\<forall>q. lookup (disk w2) q =
              lookup (disk (snd (process_texture_channels same_folder_config example_world))) q))"
proof -
  let ?w1 = "snd (process_texture_channels same_folder_config example_world)"
  have a: "create_subfolders same_folder_config" by (simp add: same_folder_config_def)
  have b: "\<forall>x. input_folder same_folder_config \<noteq> output_folder same_folder_config @ [x]"
    by (simp add: same_folder_config_def)
  have "fst (process_texture_channels same_folder_config example_world) = Inr PNone"
    by code_simp
  then have c: "process_texture_channels same_folder_config example_world = (Inr PNone, ?w1)"
    by (simp add: prod_eq_iff)
  have d: "saved_paths (console ?w1) =
     [[''tex'', ''wall_rmo'', ''wall_rmo_r.png''], [''tex'', ''wall_rmo'', ''wall_rmo_g.png''],
      [''tex'', ''wall_rmo'', ''wall_rmo_b.png''], [''tex'', ''wall_rmo'', ''wall_rmo_a.png'']]"
    by code_simp
  have e: "\<forall>n c. lookup (disk ?w1) (input_folder same_folder_config @ [n]) = Some (File c) \<longleftrightarrow>
               lookup (disk example_world) (input_folder same_folder_config @ [n]) = Some (File c)"
    using source_files_untouched[OF a b c] by blast
  from second_run_leaves_outputs_identical[OF a c e] a c d show ?thesis by blast
qed

subsection \<open>A source file on any standard output\<close>

lemma print_accepted: "out l = None \<Longrightarrow> print out l w = Inr (w\<lparr>console := console w @ [l]\<rparr>)"
  by (simp add: print_def)

lemma print_refused: "out l = Some e \<Longrightarrow> print out l w = Inl e"
  by (simp add: print_def)

text \<open>
  Whatever the standard output does, the \<open>Saved\<close> lines printed for a file name the first
  few output paths, in order, and each of these paths holds the channel saved there.
\<close>

lemma save_channels_on_result:
  assumes "\<forall>(s, i) \<in> set ci. i < length chans \<and> s \<in> fst ` set channel_info"
    and "distinct (map fst ci)"
  shows "\<exists>k \<le> length ci.
           console (snd (save_channels_on out ivs fn od chans ci w)) =
             console w @ map (\<lambda>(s, i). Saved (od @ [output_filename fn s])) (take k ci) \<and>
           (fst (save_channels_on out ivs fn od chans ci w) = Inr () \<longleftrightarrow> k = length ci) \<and>
           (\<forall>(s, i) \<in> set (take k ci).
              lookup (disk (snd (save_channels_on out ivs fn od chans ci w)))
                (od @ [output_filename fn s]) =
              Some (File (Encoded PNG (emitted ivs s (chans ! i))))) \<and>
           (\<forall>q. q \<notin> (\<lambda>(s, i). od @ [output_filename fn s]) ` set ci \<longrightarrow>
              lookup (disk (snd (save_channels_on out ivs fn od chans ci w))) q =
              lookup (disk w) q)"
  using assms
proof (induction ci arbitrary: w)
  case Nil
  then show ?case by simp
next
  case (Cons a ci)
  obtain s i where a: "a = (s, i)" by (cases a)
  from Cons.prems a have i: "i < length chans" and s: "s \<in> fst ` set channel_info" by auto
  from Cons.prems have rest: "\<forall>(s, i) \<in> set ci. i < length chans \<and> s \<in> fst ` set channel_info"
    and dist: "distinct (map fst ci)" and fresh: "s \<notin> fst ` set ci"
    using a by auto
  let ?p = "od @ [output_filename fn s]"
  let ?img = "emitted ivs s (chans ! i)"
  let ?paths = "\<lambda>l. (\<lambda>(s, i). od @ [output_filename fn s]) ` set l"
  have notin: "?p \<notin> ?paths ci"
  proof
    assume "?p \<in> ?paths ci"
    then obtain s' i' where "(s', i') \<in> set ci" "?p = od @ [output_filename fn s']" by auto
    then have "s = s'" "(s', i') \<in> set ci" by (auto simp: output_filename_inj)
    with fresh show False by force
  qed
  show ?case
  proof (cases "save ?img ?p (disk w)")
    case (Inl e)
    then have "save_channels_on out ivs fn od chans (a # ci) w = (Inl e, w)"
      using i by (simp add: a Let_def)
    then show ?thesis by (intro exI[of _ 0]) simp
  next
    case (Inr fs')
    from Inr have fs': "fs' = AList.update ?p (File (Encoded PNG ?img)) (disk w)"
      by (auto simp: save_output[OF s] split: option.splits node.splits if_splits)
    have lk0: "lookup fs' q = (if q = ?p then Some (File (Encoded PNG ?img)) else lookup (disk w) q)"
      for q by (simp add: fs' lookup_update)
    show ?thesis
    proof (cases "out (Saved ?p)")
      case (Some e)
      then have "save_channels_on out ivs fn od chans (a # ci) w = (Inl e, w\<lparr>disk := fs'\<rparr>)"
        using i Inr by (simp add: a Let_def print_refused)
      then show ?thesis using lk0 by (intro exI[of _ 0]) (auto simp: a)
    next
      case None
      define w1 where "w1 = w\<lparr>disk := fs', console := console w @ [Saved ?p]\<rparr>"
      have step: "save_channels_on out ivs fn od chans (a # ci) w =
                  save_channels_on out ivs fn od chans ci w1"
        using i Inr None by (simp add: a w1_def Let_def print_accepted)
      have lk: "lookup (disk w1) q =
                (if q = ?p then Some (File (Encoded PNG ?img)) else lookup (disk w) q)" for q
        by (simp add: w1_def lk0)
      from Cons.IH[OF rest dist, of w1] obtain k where k: "k \<le> length ci"
        "console (snd (save_channels_on out ivs fn od chans ci w1)) =
           console w1 @ map (\<lambda>(s, i). Saved (od @ [output_filename fn s])) (take k ci)"
        "fst (save_channels_on out ivs fn od chans ci w1) = Inr () \<longleftrightarrow> k = length ci"
        "\<forall>(s, i) \<in> set (take k ci).
            lookup (disk (snd (save_channels_on out ivs fn od chans ci w1)))
              (od @ [output_filename fn s]) =
            Some (File (Encoded PNG (emitted ivs s (chans ! i))))"
        "\<forall>q. q \<notin> ?paths ci \<longrightarrow>
            lookup (disk (snd (save_channels_on out ivs fn od chans ci w1))) q = lookup (disk w1) q"
        by blast
      have c1: "console (snd (save_channels_on out ivs fn od chans (a # ci) w)) =
          console w @ map (\<lambda>(s, i). Saved (od @ [output_filename fn s])) (take (Suc k) (a # ci))"
        unfolding step k(2) by (simp add: w1_def a)
      have c2: "fst (save_channels_on out ivs fn od chans (a # ci) w) = Inr () \<longleftrightarrow>
          Suc k = length (a # ci)"
        unfolding step using k(3) by simp
      have c3: "\<forall>(s, i) \<in> set (take (Suc k) (a # ci)).
          lookup (disk (snd (save_channels_on out ivs fn od chans (a # ci) w)))
            (od @ [output_filename fn s]) =
          Some (File (Encoded PNG (emitted ivs s (chans ! i))))"
        unfolding step using k(4) k(5) notin lk by (auto simp: a)
      have c4: "\<forall>q. q \<notin> ?paths (a # ci) \<longrightarrow>
          lookup (disk (snd (save_channels_on out ivs fn od chans (a # ci) w))) q =
          lookup (disk w) q"
        unfolding step using k(5) lk by (auto simp: a)
      from k(1) c1 c2 c3 c4 show ?thesis
        by (intro exI[of _ "Suc k"]) simp
    qed
  qed
qed

text \<open>When the disk lets the files be written and the lines are accepted, all is written.\<close>

lemma save_channels_on_writes:
  assumes "\<forall>(s, i) \<in> set ci. i < length chans \<and> s \<in> fst ` set channel_info"
    and "lookup (disk w) od = Some Dir"
    and "\<forall>(s, i) \<in> set ci. lookup (disk w) (od @ [output_filename fn s]) \<noteq> Some Dir"
    and "\<forall>(s, i) \<in> set ci. out (Saved (od @ [output_filename fn s])) = None"
  shows "fst (save_channels_on out ivs fn od chans ci w) = Inr ()"
  using assms
proof (induction ci arbitrary: w)
  case Nil
  then show ?case by simp
next
  case (Cons a ci)
  obtain s i where a: "a = (s, i)" by (cases a)
  from Cons.prems a have i: "i < length chans" and s: "s \<in> fst ` set channel_info"
    and rest: "\<forall>(s, i) \<in> set ci. i < length chans \<and> s \<in> fst ` set channel_info"
    and free: "lookup (disk w) (od @ [output_filename fn s]) \<noteq> Some Dir"
    and acc: "out (Saved (od @ [output_filename fn s])) = None"
    by auto
  let ?p = "od @ [output_filename fn s]"
  let ?img = "emitted ivs s (chans ! i)"
  define w1 where
    "w1 = w\<lparr>disk := AList.update ?p (File (Encoded PNG ?img)) (disk w),
             console := console w @ [Saved ?p]\<rparr>"
  have sv: "save ?img ?p (disk w) = Inr (AList.update ?p (File (Encoded PNG ?img)) (disk w))"
    using Cons.prems(2) free by (simp add: save_output[OF s])
  have step: "save_channels_on out ivs fn od chans (a # ci) w =
              save_channels_on out ivs fn od chans ci w1"
    using i sv acc by (simp add: a w1_def Let_def print_accepted)
  have lk: "lookup (disk w1) q =
            (if q = ?p then Some (File (Encoded PNG ?img)) else lookup (disk w) q)" for q
    by (simp add: w1_def lookup_update)
  have "fst (save_channels_on out ivs fn od chans ci w1) = Inr ()"
  proof (rule Cons.IH[OF rest])
    show "lookup (disk w1) od = Some Dir" using Cons.prems(2) by (simp add: lk)
    show "\<forall>(s, i) \<in> set ci. lookup (disk w1) (od @ [output_filename fn s]) \<noteq> Some Dir"
      using Cons.prems(3) by (auto simp: lk split: if_splits)
    show "\<forall>(s, i) \<in> set ci. out (Saved (od @ [output_filename fn s])) = None"
      using Cons.prems(4) by auto
  qed
  then show ?case by (simp only: step)
qed

lemma ensure_output_dir_can_write:
  assumes "can_write cfg fn fs"
  shows "\<exists>fs1. ensure_output_dir cfg fn fs = Inr fs1 \<and>
               lookup fs1 (output_dir_of cfg fn) = Some Dir \<and>
               (\<forall>q. q \<noteq> output_dir_of cfg fn \<longrightarrow> lookup fs1 q = lookup fs q)"
proof (cases "lookup fs (output_dir_of cfg fn) = Some Dir")
  case True
  then have "ensure_output_dir cfg fn fs = Inr fs"
    by (cases "create_subfolders cfg")
      (simp_all add: ensure_output_dir_def output_dir_of_def path_exists_def Let_def)
  with True show ?thesis by simp
next
  case False
  with assms have c: "create_subfolders cfg"
    and n: "lookup fs (output_folder cfg @ [base_name fn]) = None"
    and d: "lookup fs (output_folder cfg) = Some Dir"
    by (auto simp: can_write_def output_dir_of_def split: if_splits)
  have ex: "path_exists fs (output_folder cfg)" using d by (simp add: path_exists_def)
  have "ensure_output_dir cfg fn fs =
          Inr (AList.update (output_folder cfg @ [base_name fn]) Dir fs)"
    using c n d by (simp add: ensure_output_dir_def path_exists_def Let_def makedirs_child[OF ex]
        mkdir_child[OF n])
  then show ?thesis using c by (simp add: output_dir_of_def lookup_update)
qed

lemma try_body_on_writes:
  assumes "Image_open (disk w) (input_folder cfg @ [fn]) = Inr img"
    and "normalised img = Inr rgba"
    and "can_write cfg fn (disk w)"
    and "accepts_file out cfg fn"
  shows "fst (try_body_on out cfg fn w) = Inr ()"
    and "console (snd (try_body_on out cfg fn w)) =
           console w @ map (\<lambda>(s, i). Saved (output_path cfg fn s)) channel_info
             @ [Processed fn]"
    and "\<forall>(s, i) \<in> set channel_info.
           lookup (disk (snd (try_body_on out cfg fn w))) (output_path cfg fn s) =
           Some (File (Encoded PNG (emitted (invert_channels cfg) s (split_bands rgba ! i))))"
proof -
  let ?od = "output_dir_of cfg fn"
  let ?chans = "split_bands rgba"
  from ensure_output_dir_can_write[OF assms(3)] obtain fs1 where
    en: "ensure_output_dir cfg fn (disk w) = Inr fs1"
    and od: "lookup fs1 ?od = Some Dir"
    and fr: "\<forall>q. q \<noteq> ?od \<longrightarrow> lookup fs1 q = lookup (disk w) q"
    by blast
  let ?w1 = "w\<lparr>disk := fs1\<rparr>"
  let ?sc = "save_channels_on out (invert_channels cfg) fn ?od ?chans channel_info ?w1"
  have free: "\<forall>(s, i) \<in> set channel_info. lookup (disk ?w1) (?od @ [output_filename fn s]) \<noteq> Some Dir"
    using assms(3) fr by (auto simp: can_write_def list_all_iff output_path_def)
  have acc: "\<forall>(s, i) \<in> set channel_info. out (Saved (?od @ [output_filename fn s])) = None"
    using assms(4) by (auto simp: accepts_file_def list_all_iff output_path_def)
  have accp: "out (Processed fn) = None" using assms(4) by (simp add: accepts_file_def)
  have ok: "fst ?sc = Inr ()"
    by (rule save_channels_on_writes[OF channel_info_ok[OF assms(2)] _ free acc]) (simp add: od)
  from save_channels_on_result[OF channel_info_ok[OF assms(2)] distinct_channel_info,
      where out = out and ivs = "invert_channels cfg" and fn = fn and od = ?od and w = ?w1]
  obtain k where k: "k \<le> length channel_info"
    "console (snd ?sc) = console ?w1 @
       map (\<lambda>(s, i). Saved (?od @ [output_filename fn s])) (take k channel_info)"
    "fst ?sc = Inr () \<longleftrightarrow> k = length channel_info"
    "\<forall>(s, i) \<in> set (take k channel_info).
        lookup (disk (snd ?sc)) (?od @ [output_filename fn s]) =
        Some (File (Encoded PNG (emitted (invert_channels cfg) s (?chans ! i))))"
    by blast
  from k(3) ok have kk: "k = length channel_info" by simp
  obtain w' where sc: "?sc = (Inr (), w')" using ok by (cases ?sc) auto
  have tb: "try_body_on out cfg fn w = (Inr (), w'\<lparr>console := console w' @ [Processed fn]\<rparr>)"
    using assms(1,2) en sc accp by (simp add: try_body_on_def print_accepted)
  show "fst (try_body_on out cfg fn w) = Inr ()" by (simp add: tb)
  show "console (snd (try_body_on out cfg fn w)) =
           console w @ map (\<lambda>(s, i). Saved (output_path cfg fn s)) channel_info
             @ [Processed fn]"
    using k(2) by (simp add: tb sc kk output_path_def)
  show "\<forall>(s, i) \<in> set channel_info.
           lookup (disk (snd (try_body_on out cfg fn w))) (output_path cfg fn s) =
           Some (File (Encoded PNG (emitted (invert_channels cfg) s (split_bands rgba ! i))))"
    using k(4) by (simp add: tb sc kk output_path_def)
qed

lemma process_entry_on_processed:
  "eligible fn \<Longrightarrow> fst (try_body_on out cfg fn w) = Inr () \<Longrightarrow>
   process_entry_on out cfg fn w = try_body_on out cfg fn w"
  by (cases "try_body_on out cfg fn w") (simp add: process_entry_on_def)

text \<open>An exception leaves an entry only from the \<open>print\<close> of the \<open>except\<close> clause.\<close>

lemma entry_raises_only_from_handler:
  assumes "fst (process_entry_on out cfg fn w) = Inl e'"
  shows "eligible fn \<and>
         (\<exists>e. fst (try_body_on out cfg fn w) = Inl e \<and> out (Error fn e) = Some e')"
  using assms
  by (cases "try_body_on out cfg fn w")
    (auto simp: process_entry_on_def print_def split: if_splits sum.splits option.splits)

subsection \<open>Names, places and format of the files of a source file\<close>

text \<open>
  Claim C7. An eligible source file is processed: it decodes, it has a conversion to RGBA,
  the disk lets its files be written and the standard output accepts its lines. Then the
  entry ends normally; the files saved are, in this order, those of the suffixes \<open>_r\<close>,
  \<open>_g\<close>, \<open>_b\<close> and \<open>_a\<close>, named by the base name of the source file, the suffix
  and \<open>.png\<close>; they lie directly in the destination folder when
  \<open>create_subfolders\<close> is false and in its subfolder named by the base name when it is
  true; and each of them holds a PNG file of one 8-bit channel, whatever the format and the
  mode of the source. The order of the writes is read from the console: each \<open>Saved\<close>
  line is printed right after its file is written.
\<close>

theorem output_layout:
  assumes "eligible fn"
    and "Image_open (disk w) (input_folder cfg @ [fn]) = Inr img"
    and "normalised img = Inr rgba"
    and "can_write cfg fn (disk w)"
    and "accepts_file out cfg fn"
  shows "fst (process_entry_on out cfg fn w) = Inr () \<and>
         console (snd (process_entry_on out cfg fn w)) =
           console w @
           map Saved
             (map (\<lambda>s. output_folder cfg
                        @ (if create_subfolders cfg then [base_name fn] else [])
                        @ [base_name fn @ s @ ''.png''])
                [''_r'', ''_g'', ''_b'', ''_a'']) @
           [Processed fn] \<and>
         (\<forall>p \<in> set (map (\<lambda>s. output_folder cfg
                        @ (if create_subfolders cfg then [base_name fn] else [])
                        @ [base_name fn @ s @ ''.png''])
                [''_r'', ''_g'', ''_b'', ''_a'']).
            \<exists>sz px. lookup (disk (snd (process_entry_on out cfg fn w))) p =
                    Some (File (Encoded PNG (Gray sz px))))"
proof -
  note tb = try_body_on_writes[OF assms(2-5)]
  have pe: "process_entry_on out cfg fn w = try_body_on out cfg fn w"
    using assms(1) tb(1) by (rule process_entry_on_processed)
  have m: "(\<lambda>(s, i). Saved (output_path cfg fn s)) = Saved \<circ> (\<lambda>(s, i). output_path cfg fn s)"
    by (simp add: fun_eq_iff)
  have c: "console (snd (process_entry_on out cfg fn w)) =
      console w @ map Saved (map (\<lambda>(s, i). output_path cfg fn s) channel_info) @ [Processed fn]"
    unfolding pe tb(2) m by simp
  have f: "\<exists>sz px. lookup (disk (snd (process_entry_on out cfg fn w))) p =
                   Some (File (Encoded PNG (Gray sz px)))"
    if "p \<in> set (map (\<lambda>(s, i). output_path cfg fn s) channel_info)" for p
  proof -
    from that obtain s i where si: "(s, i) \<in> set channel_info" and p: "p = output_path cfg fn s"
      by auto
    from tb(3) si have "lookup (disk (snd (try_body_on out cfg fn w))) (output_path cfg fn s) =
        Some (File (Encoded PNG (emitted (invert_channels cfg) s (split_bands rgba ! i))))"
      by blast
    with emitted_is_gray[OF si assms(3), of "invert_channels cfg"] show ?thesis
      by (auto simp: pe p)
  qed
  from tb(1) c f show ?thesis
    unfolding output_paths_layout by (simp only: pe) blast
qed

theorem output_layout_witness:
  "eligible ''wall_rmo.png'' \<and>
   Image_open (disk example_world) (input_folder flat_config @ [''wall_rmo.png'']) =
     Inr (Rgb (1, 1) [200] [100] [50]) \<and>
   normalised (Rgb (1, 1) [200] [100] [50]) = Inr (Rgba (1, 1) [200] [100] [50] [255]) \<and>
   can_write flat_config ''wall_rmo.png'' (disk example_world) \<and>
   accepts_file utf8_console flat_config ''wall_rmo.png'' \<and>
   create_subfolders flat_config = False \<and>
   fst (process_entry_on utf8_console flat_config ''wall_rmo.png'' example_world) = Inr () \<and>
   console (snd (process_entry_on utf8_console flat_config ''wall_rmo.png'' example_world)) =
     [Saved [''tex'', ''wall_rmo_r.png''], Saved [''tex'', ''wall_rmo_g.png''],
      Saved [''tex'', ''wall_rmo_b.png''], Saved [''tex'', ''wall_rmo_a.png''],
      Processed ''wall_rmo.png''] \<and>
   (\<exists>sz px. lookup (disk (snd (process_entry_on utf8_console flat_config ''wall_rmo.png''
                                 example_world)))
              [''tex'', ''wall_rmo_r.png''] = Some (File (Encoded PNG (Gray sz px)))) \<and>
   (\<exists>sz px. lookup (disk (snd (process_entry_on utf8_console flat_config ''wall_rmo.png''
                                 example_world)))
              [''tex'', ''wall_rmo_g.png''] = Some (File (Encoded PNG (Gray sz px)))) \<and>
   (\<exists>sz px. lookup (disk (snd (process_entry_on utf8_console flat_config ''wall_rmo.png''
                                 example_world)))
              [''tex'', ''wall_rmo_b.png''] = Some (File (Encoded PNG (Gray sz px)))) \<and>
   (\<exists>sz px. lookup (disk (snd (process_entry_on utf8_console flat_config ''wall_rmo.png''
                                 example_world)))
              [''tex'', ''wall_rmo_a.png''] = Some (File (Encoded PNG (Gray sz px)))) \<and>
   eligible ''Metal_RMO.TGA'' \<and>
   Image_open (disk metal_world) (input_folder same_folder_config @ [''Metal_RMO.TGA'']) =
     Inr (GrayAlpha (2, 1) [9, 4] [0, 128]) \<and>
   normalised (GrayAlpha (2, 1) [9, 4] [0, 128]) =
     Inr (Rgba (2, 1) [9, 4] [9, 4] [9, 4] [0, 128]) \<and>
   can_write same_folder_config ''Metal_RMO.TGA'' (disk metal_world) \<and>
   accepts_file lenient same_folder_config ''Metal_RMO.TGA'' \<and>
   create_subfolders same_folder_config = True \<and>
   fst (process_entry_on lenient same_folder_config ''Metal_RMO.TGA'' metal_world) = Inr () \<and>
   console (snd (process_entry_on lenient same_folder_config ''Metal_RMO.TGA'' metal_world)) =
     [Saved [''tex'', ''Metal_RMO'', ''Metal_RMO_r.png''],
      Saved [''tex'', ''Metal_RMO'', ''Metal_RMO_g.png''],
      Saved [''tex'', ''Metal_RMO'', ''Metal_RMO_b.png''],
      Saved [''tex'', ''Metal_RMO'', ''Metal_RMO_a.png''],
      Processed ''Metal_RMO.TGA''] \<and>
   (\<exists>sz px. lookup (disk (snd (process_entry_on lenient same_folder_config ''Metal_RMO.TGA''
                                 metal_world)))
              [''tex'', ''Metal_RMO'', ''Metal_RMO_r.png''] =
            Some (File (Encoded PNG (Gray sz px)))) \<and>
   (\<exists>sz px. lookup (disk (snd (process_entry_on lenient same_folder_config ''Metal_RMO.TGA''
                                 metal_world)))
              [''tex'', ''Metal_RMO'', ''Metal_RMO_g.png''] =
            Some (File (Encoded PNG (Gray sz px)))) \<and>
   (\<exists>sz px. lookup (disk (snd (process_entry_on lenient same_folder_config ''Metal_RMO.TGA''
                                 metal_world)))
              [''tex'', ''Metal_RMO'', ''Metal_RMO_b.png''] =
            Some (File (Encoded PNG (Gray sz px)))) \<and>
   (\<exists>sz px. lookup (disk (snd (process_entry_on lenient same_folder_config ''Metal_RMO.TGA''
                                 metal_world)))
              [''tex'', ''Metal_RMO'', ''Metal_RMO_a.png''] =
            Some (File (Encoded PNG (Gray sz px))))"
proof -
  have a1: "eligible ''wall_rmo.png''" by code_simp
  have a2: "Image_open (disk example_world) (input_folder flat_config @ [''wall_rmo.png'']) =
     Inr (Rgb (1, 1) [200] [100] [50])"
    by code_simp
  have a3: "normalised (Rgb (1, 1) [200] [100] [50]) = Inr (Rgba (1, 1) [200] [100] [50] [255])"
    by (simp add: normalised_def opaque_def)
  have a4: "can_write flat_config ''wall_rmo.png'' (disk example_world)" by code_simp
  have a5: "accepts_file utf8_console flat_config ''wall_rmo.png''" by code_simp
  have a6: "create_subfolders flat_config = False" "output_folder flat_config = [''tex'']"
    by (simp_all add: flat_config_def)
  have a7: "base_name ''wall_rmo.png'' = ''wall_rmo''" by code_simp
  have a8: "console example_world = []" by (simp add: example_world_def)
  note flat = output_layout[OF a1 a2 a3 a4 a5]
  have b1: "eligible ''Metal_RMO.TGA''" by code_simp
  have b2: "Image_open (disk metal_world) (input_folder same_folder_config @ [''Metal_RMO.TGA'']) =
     Inr (GrayAlpha (2, 1) [9, 4] [0, 128])"
    by code_simp
  have b3: "normalised (GrayAlpha (2, 1) [9, 4] [0, 128]) =
     Inr (Rgba (2, 1) [9, 4] [9, 4] [9, 4] [0, 128])"
    by (simp add: normalised_def)
  have b4: "can_write same_folder_config ''Metal_RMO.TGA'' (disk metal_world)" by code_simp
  have b5: "accepts_file lenient same_folder_config ''Metal_RMO.TGA''" by code_simp
  have b6: "create_subfolders same_folder_config = True"
    "output_folder same_folder_config = [''tex'']"
    by (simp_all add: same_folder_config_def)
  have b7: "base_name ''Metal_RMO.TGA'' = ''Metal_RMO''" by code_simp
  have b8: "console metal_world = []" by (simp add: metal_world_def)
  note sub = output_layout[OF b1 b2 b3 b4 b5]
  from flat have f: "fst (process_entry_on utf8_console flat_config ''wall_rmo.png'' example_world) = Inr () \<and>
   console (snd (process_entry_on utf8_console flat_config ''wall_rmo.png'' example_world)) =
     [Saved [''tex'', ''wall_rmo_r.png''], Saved [''tex'', ''wall_rmo_g.png''],
      Saved [''tex'', ''wall_rmo_b.png''], Saved [''tex'', ''wall_rmo_a.png''],
      Processed ''wall_rmo.png''] \<and>
   (\<exists>sz px. lookup (disk (snd (process_entry_on utf8_console flat_config ''wall_rmo.png''
                                 example_world)))
              [''tex'', ''wall_rmo_r.png''] = Some (File (Encoded PNG (Gray sz px)))) \<and>
   (\<exists>sz px. lookup (disk (snd (process_entry_on utf8_console flat_config ''wall_rmo.png''
                                 example_world)))
              [''tex'', ''wall_rmo_g.png''] = Some (File (Encoded PNG (Gray sz px)))) \<and>
   (\<exists>sz px. lookup (disk (snd (process_entry_on utf8_console flat_config ''wall_rmo.png''
                                 example_world)))
              [''tex'', ''wall_rmo_b.png''] = Some (File (Encoded PNG (Gray sz px)))) \<and>
   (\<exists>sz px. lookup (disk (snd (process_entry_on utf8_console flat_config ''wall_rmo.png''
                                 example_world)))
              [''tex'', ''wall_rmo_a.png''] = Some (File (Encoded PNG (Gray sz px))))"
    unfolding a6 a7 a8 by simp
  from sub have s: "fst (process_entry_on lenient same_folder_config ''Metal_RMO.TGA'' metal_world) = Inr () \<and>
   console (snd (process_entry_on lenient same_folder_config ''Metal_RMO.TGA'' metal_world)) =
     [Saved [''tex'', ''Metal_RMO'', ''Metal_RMO_r.png''],
      Saved [''tex'', ''Metal_RMO'', ''Metal_RMO_g.png''],
      Saved [''tex'', ''Metal_RMO'', ''Metal_RMO_b.png''],
      Saved [''tex'', ''Metal_RMO'', ''Metal_RMO_a.png''],
      Processed ''Metal_RMO.TGA''] \<and>
   (\<exists>sz px. lookup (disk (snd (process_entry_on lenient same_folder_config ''Metal_RMO.TGA''
                                 metal_world)))
              [''tex'', ''Metal_RMO'', ''Metal_RMO_r.png''] =
            Some (File (Encoded PNG (Gray sz px)))) \<and>
   (\<exists>sz px. lookup (disk (snd (process_entry_on lenient same_folder_config ''Metal_RMO.TGA''
                                 metal_world)))
              [''tex'', ''Metal_RMO'', ''Metal_RMO_g.png''] =
            Some (File (Encoded PNG (Gray sz px)))) \<and>
   (\<exists>sz px. lookup (disk (snd (process_entry_on lenient same_folder_config ''Metal_RMO.TGA''
                                 metal_world)))
              [''tex'', ''Metal_RMO'', ''Metal_RMO_b.png''] =
            Some (File (Encoded PNG (Gray sz px)))) \<and>
   (\<exists>sz px. lookup (disk (snd (process_entry_on lenient same_folder_config ''Metal_RMO.TGA''
                                 metal_world)))
              [''tex'', ''Metal_RMO'', ''Metal_RMO_a.png''] =
            Some (File (Encoded PNG (Gray sz px))))"
    unfolding b6 b7 b8 by simp
  from a1 a2 a3 a4 a5 a6(1) f b1 b2 b3 b4 b5 b6(1) s show ?thesis by (simp only:)
qed

subsection \<open>The inversion law\<close>

text \<open>
  Claim C4. An eligible source file is processed: it decodes, it has a conversion to RGBA,
  the disk lets its files be written and the standard output accepts its lines. Then the
  entry ends normally, whatever the invert set, and for each suffix the file of the suffix
  holds a plane of the size and length of the source channel of the suffix, the plane of the
  image that is split. When the letter of the suffix is in the invert set, every pixel of
  the file is 255 minus the pixel of the source channel at the same place; when it is not
  in the set, or the set is empty or absent, the plane of the file is the source plane
  itself.
\<close>

theorem inversion_law:
  assumes "eligible fn"
    and "Image_open (disk w) (input_folder cfg @ [fn]) = Inr img"
    and "normalised img = Inr rgba"
    and "can_write cfg fn (disk w)"
    and "accepts_file out cfg fn"
    and "(s, i) \<in> set channel_info"
  shows "\<exists>sz src res.
           split_bands rgba ! i = Gray sz src \<and>
           fst (process_entry_on out cfg fn w) = Inr () \<and>
           lookup (disk (snd (process_entry_on out cfg fn w))) (output_path cfg fn s) =
             Some (File (Encoded PNG (Gray sz res))) \<and>
           length res = length src \<and>
           (if \<exists>l. invert_channels cfg = Some l \<and> [s ! 1] \<in> set l
            then \<forall>j < length src. unat (res ! j) = 255 - unat (src ! j)
            else res = src)"
proof -
  note tb = try_body_on_writes[OF assms(2-5)]
  have pe: "process_entry_on out cfg fn w = try_body_on out cfg fn w"
    using assms(1) tb(1) by (rule process_entry_on_processed)
  from channel_is_gray[OF assms(6,3)] obtain sz src where
    g: "split_bands rgba ! i = Gray sz src" by blast
  define res where
    "res = (if wants_invert (invert_channels cfg) s then invert_plane src else src)"
  have "lookup (disk (snd (try_body_on out cfg fn w))) (output_path cfg fn s) =
      Some (File (Encoded PNG (emitted (invert_channels cfg) s (Gray sz src))))"
    using tb(3) assms(6) g by force
  then have f: "lookup (disk (snd (process_entry_on out cfg fn w))) (output_path cfg fn s) =
      Some (File (Encoded PNG (Gray sz res)))"
    by (simp add: pe emitted_gray res_def)
  have ok: "fst (process_entry_on out cfg fn w) = Inr ()" using tb(1) by (simp add: pe)
  have l: "length res = length src" by (simp add: res_def invert_plane_def)
  have p: "if \<exists>l. invert_channels cfg = Some l \<and> [s ! 1] \<in> set l
           then \<forall>j < length src. unat (res ! j) = 255 - unat (src ! j)
           else res = src"
    unfolding res_def wants_invert_iff[symmetric]
    by (simp add: invert_plane_def unat_invert_pixel)
  from g ok f l p show ?thesis by blast
qed

theorem inversion_law_witness:
  "eligible ''wall_rmo.png'' \<and>
   Image_open (disk example_world) [''tex'', ''wall_rmo.png''] =
     Inr (Rgb (1, 1) [200] [100] [50]) \<and>
   normalised (Rgb (1, 1) [200] [100] [50]) = Inr (Rgba (1, 1) [200] [100] [50] [255]) \<and>
   (''_r'', 0) \<in> set channel_info \<and> (''_g'', 1) \<in> set channel_info \<and>
   invert_channels same_folder_config = Some [''r''] \<and>
   can_write same_folder_config ''wall_rmo.png'' (disk example_world) \<and>
   accepts_file utf8_console same_folder_config ''wall_rmo.png'' \<and>
   (\<exists>res. lookup (disk (snd (process_entry_on utf8_console same_folder_config ''wall_rmo.png''
                               example_world)))
            [''tex'', ''wall_rmo'', ''wall_rmo_r.png''] =
            Some (File (Encoded PNG (Gray (1, 1) res))) \<and>
          length res = 1 \<and> unat (res ! 0) = 55) \<and>
   lookup (disk (snd (process_entry_on utf8_console same_folder_config ''wall_rmo.png''
                        example_world)))
     [''tex'', ''wall_rmo'', ''wall_rmo_g.png''] =
     Some (File (Encoded PNG (Gray (1, 1) [100]))) \<and>
   invert_channels flat_config = None \<and>
   can_write flat_config ''wall_rmo.png'' (disk example_world) \<and>
   accepts_file utf8_console flat_config ''wall_rmo.png'' \<and>
   fst (process_entry_on utf8_console flat_config ''wall_rmo.png'' example_world) = Inr () \<and>
   lookup (disk (snd (process_entry_on utf8_console flat_config ''wall_rmo.png''
                        example_world)))
     [''tex'', ''wall_rmo_r.png''] =
     Some (File (Encoded PNG (Gray (1, 1) [200]))) \<and>
   invert_channels (flat_config\<lparr>invert_channels := Some []\<rparr>) = Some [] \<and>
   can_write (flat_config\<lparr>invert_channels := Some []\<rparr>) ''wall_rmo.png''
     (disk example_world) \<and>
   accepts_file utf8_console (flat_config\<lparr>invert_channels := Some []\<rparr>) ''wall_rmo.png'' \<and>
   fst (process_entry_on utf8_console (flat_config\<lparr>invert_channels := Some []\<rparr>)
          ''wall_rmo.png'' example_world) = Inr () \<and>
   lookup (disk (snd (process_entry_on utf8_console (flat_config\<lparr>invert_channels := Some []\<rparr>)
                        ''wall_rmo.png'' example_world)))
     [''tex'', ''wall_rmo_r.png''] =
     Some (File (Encoded PNG (Gray (1, 1) [200])))"
proof -
  let ?img = "Rgb (1, 1) [200] [100] [50]"
  let ?rgba = "Rgba (1, 1) [200] [100] [50] [255]"
  let ?none = "flat_config\<lparr>invert_channels := Some []\<rparr>"
  have e: "eligible ''wall_rmo.png''" by code_simp
  have n: "normalised ?img = Inr ?rgba" by (simp add: normalised_def opaque_def)
  have r: "(''_r'', 0) \<in> set channel_info" and g: "(''_g'', 1) \<in> set channel_info"
    by (simp_all add: channel_info_def)
  have o0: "Image_open (disk example_world) [''tex'', ''wall_rmo.png''] = Inr ?img"
    by code_simp
  have o1: "Image_open (disk example_world) (input_folder same_folder_config @ [''wall_rmo.png''])
      = Inr ?img"
    by code_simp
  have i1: "invert_channels same_folder_config = Some [''r'']"
    by (simp add: same_folder_config_def)
  have c1: "can_write same_folder_config ''wall_rmo.png'' (disk example_world)" by code_simp
  have a1: "accepts_file utf8_console same_folder_config ''wall_rmo.png''" by code_simp
  have p1r: "output_path same_folder_config ''wall_rmo.png'' ''_r'' =
      [''tex'', ''wall_rmo'', ''wall_rmo_r.png'']"
    by code_simp
  have p1g: "output_path same_folder_config ''wall_rmo.png'' ''_g'' =
      [''tex'', ''wall_rmo'', ''wall_rmo_g.png'']"
    by code_simp
  have red: "\<exists>res. lookup (disk (snd (process_entry_on utf8_console same_folder_config
                                       ''wall_rmo.png'' example_world)))
            [''tex'', ''wall_rmo'', ''wall_rmo_r.png''] =
            Some (File (Encoded PNG (Gray (1, 1) res))) \<and>
          length res = 1 \<and> unat (res ! 0) = 55"
    using inversion_law[OF e o1 n c1 a1 r] by (auto simp: i1 p1r)
  have green: "lookup (disk (snd (process_entry_on utf8_console same_folder_config
                                    ''wall_rmo.png'' example_world)))
     [''tex'', ''wall_rmo'', ''wall_rmo_g.png''] = Some (File (Encoded PNG (Gray (1, 1) [100])))"
    using inversion_law[OF e o1 n c1 a1 g] by (auto simp: i1 p1g)
  have o2: "Image_open (disk example_world) (input_folder flat_config @ [''wall_rmo.png''])
      = Inr ?img"
    by code_simp
  have i2: "invert_channels flat_config = None" by (simp add: flat_config_def)
  have c2: "can_write flat_config ''wall_rmo.png'' (disk example_world)" by code_simp
  have a2: "accepts_file utf8_console flat_config ''wall_rmo.png''" by code_simp
  have p2: "output_path flat_config ''wall_rmo.png'' ''_r'' = [''tex'', ''wall_rmo_r.png'']"
    by code_simp
  have absent: "fst (process_entry_on utf8_console flat_config ''wall_rmo.png'' example_world)
      = Inr () \<and>
    lookup (disk (snd (process_entry_on utf8_console flat_config ''wall_rmo.png''
                        example_world)))
     [''tex'', ''wall_rmo_r.png''] = Some (File (Encoded PNG (Gray (1, 1) [200])))"
    using inversion_law[OF e o2 n c2 a2 r] by (auto simp: i2 p2)
  have o3: "Image_open (disk example_world) (input_folder ?none @ [''wall_rmo.png'']) = Inr ?img"
    by code_simp
  have i3: "invert_channels ?none = Some []" by simp
  have c3: "can_write ?none ''wall_rmo.png'' (disk example_world)" by code_simp
  have a3: "accepts_file utf8_console ?none ''wall_rmo.png''" by code_simp
  have p3: "output_path ?none ''wall_rmo.png'' ''_r'' = [''tex'', ''wall_rmo_r.png'']"
    by code_simp
  have empty: "fst (process_entry_on utf8_console ?none ''wall_rmo.png'' example_world) = Inr () \<and>
    lookup (disk (snd (process_entry_on utf8_console ?none ''wall_rmo.png'' example_world)))
     [''tex'', ''wall_rmo_r.png''] = Some (File (Encoded PNG (Gray (1, 1) [200])))"
    using inversion_law[OF e o3 n c3 a3 r] by (auto simp: i3 p3)
  from e o0 n r g i1 c1 a1 red green i2 c2 a2 absent i3 c3 a3 empty show ?thesis
    by (simp only:)
qed

subsection \<open>A name that the standard output cannot print\<close>

text \<open>
  Claim C5. The claim is that a failure on one source file is logged and stays within the
  file, so that the files after it are processed. The \<open>try\<close> statement is there for
  that, but the \<open>print\<close> of its \<open>except\<close> clause is not protected. In the run
  below the standard output is UTF-8 and the first entry of the source folder has a name
  that is not: its decoding fails, the failure is caught, the \<open>print\<close> of line 86
  raises \<open>UnicodeEncodeError\<close>, and the exception leaves the function. Nothing is
  logged, and the texture after it in the listing is never opened, although the same
  folder is processed to its end when every line is accepted.
\<close>

theorem unprintable_name_aborts_batch:
  "listdir (disk unprintable_world) (input_folder example_config) =
     Inr [CHR 0xFF # ''_rmo.png'', ''wall_rmo.png''] \<and>
   eligible (CHR 0xFF # ''_rmo.png'') \<and> eligible ''wall_rmo.png'' \<and>
   try_body_on utf8_console example_config (CHR 0xFF # ''_rmo.png'')
     (unprintable_world\<lparr>disk := disk unprintable_world @ [([''out''], Dir)]\<rparr>) =
     (Inl UnidentifiedImageError,
      unprintable_world\<lparr>disk := disk unprintable_world @ [([''out''], Dir)]\<rparr>) \<and>
   process_texture_channels_on utf8_console example_config unprintable_world =
     (Inl UnicodeEncodeError,
      \<lparr>disk = disk unprintable_world @ [([''out''], Dir)], console = []\<rparr>) \<and>
   lookup (disk (snd (process_texture_channels_on utf8_console example_config
                        unprintable_world)))
     [''out'', ''wall_rmo'', ''wall_rmo_r.png''] = None \<and>
   fst (process_texture_channels_on lenient example_config unprintable_world) = Inr PNone \<and>
   reported (console (snd (process_texture_channels_on lenient example_config
                             unprintable_world))) =
     [CHR 0xFF # ''_rmo.png'', ''wall_rmo.png''] \<and>
   lookup (disk (snd (process_texture_channels_on lenient example_config unprintable_world)))
     [''out'', ''wall_rmo'', ''wall_rmo_r.png''] =
     Some (File (Encoded PNG (Gray (1, 1) [55])))"
  by code_simp

end
